theory Spec2Isabelle
  imports Main "HOL-Library.Word"
begin

section \<open>The boardloader: core/embed/boardloader/main.c\<close>

text \<open>
  The boardloader is the first boot stage of the device. Its source file calls a number
  of collaborators (flash driver, SD card driver, display, image verification, the
  fatal-halt primitive) that live in other files. The embedding below keeps the control
  flow of \<^verbatim>\<open>main.c\<close> as it is written and takes every collaborator as a parameter:
  a function on an abstract hardware state \<open>'hw\<close>. Every call of a collaborator is
  recorded, with its arguments and its result, in the list of events of a run.
\<close>

subsection \<open>Data\<close>

type_synonym secbool = "32 word"

text \<open>
  \<^verbatim>\<open>image_header\<close> is declared in \<^verbatim>\<open>image.h\<close>; the only field that
  \<^verbatim>\<open>main.c\<close> reads is \<^verbatim>\<open>codelen\<close>.
\<close>

record image_header =
  codelen :: "32 word"

text \<open>
  The constants and macros that \<^verbatim>\<open>main.c\<close> takes from its headers
  (\<^verbatim>\<open>secbool.h\<close>, \<^verbatim>\<open>image.h\<close>, \<^verbatim>\<open>flash.h\<close>, \<^verbatim>\<open>sdcard.h\<close>,
  \<^verbatim>\<open>common.h\<close>) and the two build switches \<^verbatim>\<open>TREZOR_MODEL_T\<close> and
  \<^verbatim>\<open>PRODUCTION\<close> are parameters of the model.

  Modelled from the spec: \<open>FLASH_SECTOR_BOARDLOADER_START\<close> and
  \<open>FLASH_SECTOR_BOARDLOADER_END\<close> delimit the "own-stage" region of the spec's
  FlashSectorMap, the sectors that hold the running boardloader. \<^verbatim>\<open>main.c\<close> never
  names them.
\<close>

record board_config =
  sectrue :: secbool
  secfalse :: secbool
  TREZOR_MODEL_T :: bool
  PRODUCTION :: bool
  IMAGE_HEADER_SIZE :: "32 word"
  SDCARD_BLOCK_SIZE :: "32 word"
  BOOTLOADER_START :: "32 word"
  BOOTLOADER_IMAGE_MAGIC :: "32 word"
  BOOTLOADER_IMAGE_MAXSIZE :: "32 word"
  FLASH_SECTOR_BOARDLOADER_START :: "8 word"
  FLASH_SECTOR_BOARDLOADER_END :: "8 word"
  FLASH_SECTOR_STORAGE_1 :: "8 word"
  FLASH_SECTOR_STORAGE_2 :: "8 word"
  FLASH_SECTOR_BOOTLOADER :: "8 word"
  FLASH_SECTOR_FIRMWARE_START :: "8 word"
  FLASH_SECTOR_FIRMWARE_END :: "8 word"
  FLASH_SECTOR_UNUSED_START :: "8 word"
  FLASH_SECTOR_UNUSED_END :: "8 word"
  FLASH_SECTOR_FIRMWARE_EXTRA_START :: "8 word"
  FLASH_SECTOR_FIRMWARE_EXTRA_END :: "8 word"
  STORAGE_SECTORS :: "8 word list"
  STORAGE_SECTORS_COUNT :: nat

text \<open>
  The first argument of \<^verbatim>\<open>load_image_header\<close> is either the SD card read buffer
  (\<^verbatim>\<open>sdcard_buf\<close>, an alias of \<^verbatim>\<open>sram_start\<close>) or an address in flash.
\<close>

datatype image_ptr = Sdcard_buf | Flash_addr "32 word"

text \<open>One event per call of a collaborator: its arguments, then its result.\<close>

datatype event =
    E_reset_flags_reset
  | E_periph_init
  | E_flash_configure_option_bytes secbool
  | E_flash_erase_sectors "8 word list" nat bool secbool
  | E_clear_otg_hs_memory
  | E_display_init
  | E_display_clear
  | E_display_set_big_endian
  | E_display_backlight int
  | E_display_printf string "int list"
  | E_hal_delay "32 word"
  | E_sdcard_init
  | E_sdcard_power_on secbool
  | E_sdcard_get_capacity_in_bytes "64 word"
  | E_sdcard_power_off
  | E_memzero "32 word"
  | E_sdcard_read_blocks "32 word" "32 word" secbool
  | E_load_image_header image_ptr secbool image_header
  | E_check_image_contents image_header "32 word" "8 word list" secbool
  | E_flash_unlock_write secbool
  | E_flash_lock_write secbool
  | E_flash_write_word "8 word" "32 word" "32 word" secbool
  | E_fatal_error "string option"
  | E_jump_to "32 word"

text \<open>
  The collaborators. \<^verbatim>\<open>sdcard_read_blocks\<close> and \<^verbatim>\<open>memzero\<close> are only ever
  called on \<^verbatim>\<open>sdcard_buf\<close>, so the destination is not an argument; \<open>sdcard_buf\<close>
  reads word \<open>j\<close> of that buffer. The third argument of \<^verbatim>\<open>flash_erase_sectors\<close>
  is the progress callback (\<open>None\<close> for \<^verbatim>\<open>NULL\<close>); the event records only whether
  one was given.
\<close>

record 'hw hal =
  reset_flags_reset :: "'hw \<Rightarrow> 'hw"
  periph_init :: "'hw \<Rightarrow> 'hw"
  flash_configure_option_bytes :: "'hw \<Rightarrow> secbool \<times> 'hw"
  flash_erase_sectors ::
    "8 word list \<Rightarrow> nat \<Rightarrow> (int \<Rightarrow> int \<Rightarrow> 'hw \<Rightarrow> 'hw) option \<Rightarrow> 'hw \<Rightarrow> secbool \<times> 'hw"
  flash_unlock_write :: "'hw \<Rightarrow> secbool \<times> 'hw"
  flash_lock_write :: "'hw \<Rightarrow> secbool \<times> 'hw"
  flash_write_word :: "8 word \<Rightarrow> 32 word \<Rightarrow> 32 word \<Rightarrow> 'hw \<Rightarrow> secbool \<times> 'hw"
  clear_otg_hs_memory :: "'hw \<Rightarrow> 'hw"
  display_init :: "'hw \<Rightarrow> 'hw"
  display_clear :: "'hw \<Rightarrow> 'hw"
  display_set_big_endian :: "'hw \<Rightarrow> 'hw"
  display_backlight :: "int \<Rightarrow> 'hw \<Rightarrow> 'hw"
  display_printf :: "string \<Rightarrow> int list \<Rightarrow> 'hw \<Rightarrow> 'hw"
  hal_delay :: "32 word \<Rightarrow> 'hw \<Rightarrow> 'hw"
  sdcard_init :: "'hw \<Rightarrow> 'hw"
  sdcard_power_on :: "'hw \<Rightarrow> secbool \<times> 'hw"
  sdcard_get_capacity_in_bytes :: "'hw \<Rightarrow> 64 word \<times> 'hw"
  sdcard_power_off :: "'hw \<Rightarrow> 'hw"
  memzero :: "32 word \<Rightarrow> 'hw \<Rightarrow> 'hw"
  sdcard_read_blocks :: "32 word \<Rightarrow> 32 word \<Rightarrow> 'hw \<Rightarrow> secbool \<times> 'hw"
  sdcard_buf :: "'hw \<Rightarrow> nat \<Rightarrow> 32 word"
  load_image_header ::
    "image_ptr \<Rightarrow> 32 word \<Rightarrow> 32 word \<Rightarrow> 8 word \<Rightarrow> 8 word \<Rightarrow> 8 word list list \<Rightarrow> 'hw
      \<Rightarrow> (secbool \<times> image_header) \<times> 'hw"
  check_image_contents ::
    "image_header \<Rightarrow> 32 word \<Rightarrow> 8 word list \<Rightarrow> nat \<Rightarrow> 'hw \<Rightarrow> secbool \<times> 'hw"
  jump_to :: "32 word \<Rightarrow> 'hw \<Rightarrow> 'hw"

subsection \<open>Runs\<close>

text \<open>
  A piece of the program maps the hardware state to its outcome, the new hardware state
  and the events it produced. The outcome is \<open>Ret x\<close> when the piece returns \<open>x\<close> and
  \<open>Fatal\<close> when it ends in the fatal-halt primitive, which never returns.
\<close>

datatype 'a outcome = Ret 'a | Fatal

type_synonym ('hw, 'a) prog = "'hw \<Rightarrow> 'a outcome \<times> 'hw \<times> event list"

abbreviation outcome_of :: "'a outcome \<times> 'hw \<times> event list \<Rightarrow> 'a outcome" where
  "outcome_of r \<equiv> fst r"

abbreviation hw_of :: "'a outcome \<times> 'hw \<times> event list \<Rightarrow> 'hw" where
  "hw_of r \<equiv> fst (snd r)"

abbreviation events_of :: "'a outcome \<times> 'hw \<times> event list \<Rightarrow> event list" where
  "events_of r \<equiv> snd (snd r)"

definition ret :: "'a \<Rightarrow> ('hw, 'a) prog" where
  "ret x = (\<lambda>h. (Ret x, h, []))"

definition bnd :: "('hw, 'a) prog \<Rightarrow> ('a \<Rightarrow> ('hw, 'b) prog) \<Rightarrow> ('hw, 'b) prog" where
  "bnd m f = (\<lambda>h. case m h of
       (Fatal, h1, es1) \<Rightarrow> (Fatal, h1, es1)
     | (Ret x, h1, es1) \<Rightarrow> (case f x h1 of (r, h2, es2) \<Rightarrow> (r, h2, es1 @ es2)))"

definition call :: "('hw \<Rightarrow> 'r \<times> 'hw) \<Rightarrow> ('r \<Rightarrow> event) \<Rightarrow> ('hw, 'r) prog" where
  "call f ev = (\<lambda>h. case f h of (r, h1) \<Rightarrow> (Ret r, h1, [ev r]))"

definition call_void :: "('hw \<Rightarrow> 'hw) \<Rightarrow> event \<Rightarrow> ('hw, unit) prog" where
  "call_void f e = (\<lambda>h. (Ret (), f h, [e]))"

definition fetch :: "('hw \<Rightarrow> 'a) \<Rightarrow> ('hw, 'a) prog" where
  "fetch g = (\<lambda>h. (Ret (g h), h, []))"

primrec steps :: "('hw, unit) prog list \<Rightarrow> ('hw, unit) prog" where
  "steps [] = ret ()"
| "steps (m # ms) = bnd m (\<lambda>_. steps ms)"

text \<open>
  Modelled from the spec: \<^verbatim>\<open>ensure(expr, msg)\<close> is a macro of \<^verbatim>\<open>common.h\<close>. The
  spec describes the pattern as "halt and never return": when \<open>expr\<close> is not
  \<open>sectrue\<close> the fatal-halt primitive is invoked and the run ends there.
\<close>

definition fatal_error :: "string option \<Rightarrow> ('hw, 'a) prog" where
  "fatal_error msg = (\<lambda>h. (Fatal, h, [E_fatal_error msg]))"

definition ensure :: "board_config \<Rightarrow> ('hw, secbool) prog \<Rightarrow> string option \<Rightarrow> ('hw, unit) prog" where
  "ensure c m msg = bnd m (\<lambda>r. if r = sectrue c then ret () else fatal_error msg)"

subsection \<open>Keys\<close>

definition BOARDLOADER_KEY_M :: "8 word" where
  "BOARDLOADER_KEY_M = 2"

definition BOARDLOADER_KEY_N :: "8 word" where
  "BOARDLOADER_KEY_N = 3"

definition BOARDLOADER_KEYS :: "board_config \<Rightarrow> 8 word list list" where
  "BOARDLOADER_KEYS c =
    (if PRODUCTION c then
      [[0x0e, 0xb9, 0x85, 0x6b, 0xe9, 0xba, 0x7e, 0x97, 0x2c, 0x7f, 0x34, 0xea, 0xc1, 0xed, 0x9b, 0x6f,
        0xd0, 0xef, 0xd1, 0x72, 0xec, 0x00, 0xfa, 0xf0, 0xc5, 0x89, 0x75, 0x9d, 0xa4, 0xdd, 0xfb, 0xa0],
       [0xac, 0x8a, 0xb4, 0x0b, 0x32, 0xc9, 0x86, 0x55, 0x79, 0x8f, 0xd5, 0xda, 0x5e, 0x19, 0x2b, 0xe2,
        0x7a, 0x22, 0x30, 0x6e, 0xa0, 0x5c, 0x6d, 0x27, 0x7c, 0xdf, 0xf4, 0xa3, 0xf4, 0x12, 0x5c, 0xd8],
       [0xce, 0x0f, 0xcd, 0x12, 0x54, 0x3e, 0xf5, 0x93, 0x6c, 0xf2, 0x80, 0x49, 0x82, 0x13, 0x67, 0x07,
        0x86, 0x3d, 0x17, 0x29, 0x5f, 0xac, 0xed, 0x72, 0xaf, 0x17, 0x1d, 0x6e, 0x65, 0x13, 0xff, 0x06]]
     else
      [[0xdb, 0x99, 0x5f, 0xe2, 0x51, 0x69, 0xd1, 0x41, 0xca, 0xb9, 0xbb, 0xba, 0x92, 0xba, 0xa0, 0x1f,
        0x9f, 0x2e, 0x1e, 0xce, 0x7d, 0xf4, 0xcb, 0x2a, 0xc0, 0x51, 0x90, 0xf3, 0x7f, 0xcc, 0x1f, 0x9d],
       [0x21, 0x52, 0xf8, 0xd1, 0x9b, 0x79, 0x1d, 0x24, 0x45, 0x32, 0x42, 0xe1, 0x5f, 0x2e, 0xab, 0x6c,
        0xb7, 0xcf, 0xfa, 0x7b, 0x6a, 0x5e, 0xd3, 0x00, 0x97, 0x96, 0x0e, 0x06, 0x98, 0x81, 0xdb, 0x12],
       [0x22, 0xfc, 0x29, 0x77, 0x92, 0xf0, 0xb6, 0xff, 0xc0, 0xbf, 0xcf, 0xdb, 0x7e, 0xdb, 0x0c, 0x0a,
        0xa1, 0x4e, 0x02, 0x5a, 0x36, 0x5e, 0xc0, 0xe3, 0x42, 0xe8, 0x6e, 0x38, 0x29, 0xcb, 0x74, 0xb6]])"

subsection \<open>Detection of a bootloader image on the SD card\<close>

text \<open>
  \<^verbatim>\<open>check_sdcard\<close>, lines 78 to 107. The \<^verbatim>\<open>&&\<close> of the last test is
  short-circuit: \<^verbatim>\<open>load_image_header\<close> is called only when the read succeeded.
\<close>

definition check_sdcard :: "board_config \<Rightarrow> 'hw hal \<Rightarrow> ('hw, 32 word) prog" where
  "check_sdcard c hal =
     bnd (call (sdcard_power_on hal) E_sdcard_power_on) (\<lambda>powered.
     if sectrue c \<noteq> powered then ret 0
     else
     bnd (call (sdcard_get_capacity_in_bytes hal) E_sdcard_get_capacity_in_bytes) (\<lambda>cap.
     if cap < 1024 * 1024 then
       bnd (call_void (sdcard_power_off hal) E_sdcard_power_off) (\<lambda>_. ret 0)
     else
     bnd (call_void (memzero hal (IMAGE_HEADER_SIZE c)) (E_memzero (IMAGE_HEADER_SIZE c))) (\<lambda>_.
     bnd (call (sdcard_read_blocks hal 0 (IMAGE_HEADER_SIZE c div SDCARD_BLOCK_SIZE c))
            (E_sdcard_read_blocks 0 (IMAGE_HEADER_SIZE c div SDCARD_BLOCK_SIZE c))) (\<lambda>read_status.
     bnd (call_void (sdcard_power_off hal) E_sdcard_power_off) (\<lambda>_.
     if sectrue c = read_status then
       bnd (call (load_image_header hal Sdcard_buf (BOOTLOADER_IMAGE_MAGIC c)
                    (BOOTLOADER_IMAGE_MAXSIZE c) BOARDLOADER_KEY_M BOARDLOADER_KEY_N
                    (BOARDLOADER_KEYS c))
              (\<lambda>(r, hdr). E_load_image_header Sdcard_buf r hdr)) (\<lambda>(r, hdr).
       if sectrue c = r then ret (codelen hdr) else ret 0)
     else ret 0)))))"

subsection \<open>The recovery flow: copying a bootloader from the SD card\<close>

definition printf :: "'hw hal \<Rightarrow> string \<Rightarrow> int list \<Rightarrow> ('hw, unit) prog" where
  "printf hal fmt args = call_void (display_printf hal fmt args) (E_display_printf fmt args)"

text \<open>
  \<^verbatim>\<open>progress_callback\<close>, line 109: it ignores both arguments and prints a dot. It is
  handed to \<^verbatim>\<open>flash_erase_sectors\<close>; whether and how often that collaborator calls it
  is not in the source, so the dots are part of the collaborator's effect on the hardware
  state and are not among the events of a run.
\<close>

definition progress_callback :: "'hw hal \<Rightarrow> int \<Rightarrow> int \<Rightarrow> 'hw \<Rightarrow> 'hw" where
  "progress_callback hal pos len = display_printf hal ''.'' []"

text \<open>The array \<^verbatim>\<open>sectors\<close> of \<^verbatim>\<open>copy_sdcard\<close>, lines 136 to 158.\<close>

definition copy_sdcard_sectors :: "board_config \<Rightarrow> 8 word list" where
  "copy_sdcard_sectors c =
     [FLASH_SECTOR_STORAGE_1 c,
      FLASH_SECTOR_STORAGE_2 c,
      3,
      FLASH_SECTOR_BOOTLOADER c,
      FLASH_SECTOR_FIRMWARE_START c,
      7,
      8,
      9,
      10,
      FLASH_SECTOR_FIRMWARE_END c,
      FLASH_SECTOR_UNUSED_START c,
      13,
      14,
      FLASH_SECTOR_UNUSED_END c,
      FLASH_SECTOR_FIRMWARE_EXTRA_START c,
      18,
      19,
      20,
      21,
      22,
      FLASH_SECTOR_FIRMWARE_EXTRA_END c]"

text \<open>
  The body of the countdown loop up to the assignment of \<^verbatim>\<open>codelen\<close>, lines 124 to
  126: print the counter, wait 1000 ms, run the detection.
\<close>

definition countdown_tick :: "board_config \<Rightarrow> 'hw hal \<Rightarrow> int \<Rightarrow> ('hw, 32 word) prog" where
  "countdown_tick c hal i =
     bnd (printf hal ''%d '' [i]) (\<lambda>_.
     bnd (call_void (hal_delay hal 1000) (E_hal_delay 1000)) (\<lambda>_.
     check_sdcard c hal))"

text \<open>
  The loop \<^verbatim>\<open>for (int i = 10; i >= 0; i--)\<close>, lines 123 to 131, from counter \<open>i\<close>
  on. \<open>Inl v\<close> stands for the \<^verbatim>\<open>return v\<close> inside the loop, \<open>Inr clen\<close> for
  leaving the loop with the last value assigned to \<^verbatim>\<open>codelen\<close>.
\<close>

function copy_sdcard_countdown ::
  "board_config \<Rightarrow> 'hw hal \<Rightarrow> int \<Rightarrow> 32 word \<Rightarrow> ('hw, secbool + 32 word) prog" where
  "copy_sdcard_countdown c hal i clen =
     (if i \<ge> 0 then
        bnd (countdown_tick c hal i) (\<lambda>clen'.
          if 0 = clen' then
            bnd (printf hal ''\<newline>\<newline>no SD card, aborting\<newline>'' []) (\<lambda>_. ret (Inl (secfalse c)))
          else copy_sdcard_countdown c hal (i - 1) clen')
      else ret (Inr clen))"
  by pat_completeness auto
termination
  by (relation "measure (\<lambda>(c, hal, i, clen). nat (i + 1))") auto

text \<open>
  The inner loop, lines 177 to 182, from word \<open>j\<close> on, for block \<open>i\<close>. The bound
  \<^verbatim>\<open>SDCARD_BLOCK_SIZE / sizeof(uint32_t)\<close> and the offset are computed in 32-bit
  unsigned arithmetic, as C does once \<^verbatim>\<open>sizeof\<close> takes part.
\<close>

function copy_sdcard_words :: "board_config \<Rightarrow> 'hw hal \<Rightarrow> nat \<Rightarrow> nat \<Rightarrow> ('hw, unit) prog" where
  "copy_sdcard_words c hal i j =
     (if j < unat (SDCARD_BLOCK_SIZE c div 4) then
        bnd (fetch (\<lambda>h. sdcard_buf hal h j)) (\<lambda>v.
        bnd (ensure c
               (call (flash_write_word hal (FLASH_SECTOR_BOOTLOADER c)
                        (of_nat i * SDCARD_BLOCK_SIZE c + of_nat j * 4) v)
                  (E_flash_write_word (FLASH_SECTOR_BOOTLOADER c)
                        (of_nat i * SDCARD_BLOCK_SIZE c + of_nat j * 4) v))
               None) (\<lambda>_.
        copy_sdcard_words c hal i (j + 1)))
      else ret ())"
  by pat_completeness auto
termination
  by (relation "measure (\<lambda>(c, hal, i, j). unat (SDCARD_BLOCK_SIZE c div 4) - j)") auto

text \<open>
  The outer loop, lines 175 to 183, from block \<open>i\<close> on. The bound
  \<^verbatim>\<open>(IMAGE_HEADER_SIZE + codelen) / SDCARD_BLOCK_SIZE\<close> has type \<^verbatim>\<open>uint32_t\<close>: the
  sum wraps at \<open>2 ^ 32\<close> and the division truncates.
\<close>

function copy_sdcard_blocks :: "board_config \<Rightarrow> 'hw hal \<Rightarrow> 32 word \<Rightarrow> nat \<Rightarrow> ('hw, unit) prog" where
  "copy_sdcard_blocks c hal clen i =
     (if i < unat ((IMAGE_HEADER_SIZE c + clen) div SDCARD_BLOCK_SIZE c) then
        bnd (ensure c (call (sdcard_read_blocks hal (of_nat i) 1)
                         (E_sdcard_read_blocks (of_nat i) 1)) None) (\<lambda>_.
        bnd (copy_sdcard_words c hal i 0) (\<lambda>_.
        copy_sdcard_blocks c hal clen (i + 1)))
      else ret ())"
  by pat_completeness auto
termination
  by (relation "measure (\<lambda>(c, hal, clen, i).
        unat ((IMAGE_HEADER_SIZE c + clen) div SDCARD_BLOCK_SIZE c) - i)") auto

text \<open>Lines 166 to 173: unlock the flash, power the card on, clear the buffer.\<close>

definition copy_sdcard_begin :: "board_config \<Rightarrow> 'hw hal \<Rightarrow> ('hw, unit) prog" where
  "copy_sdcard_begin c hal =
     bnd (ensure c (call (flash_unlock_write hal) E_flash_unlock_write) None) (\<lambda>_.
     bnd (printf hal ''copying new bootloader from SD card\<newline>\<newline>'' []) (\<lambda>_.
     bnd (ensure c (call (sdcard_power_on hal) E_sdcard_power_on) None) (\<lambda>_.
     call_void (memzero hal (SDCARD_BLOCK_SIZE c)) (E_memzero (SDCARD_BLOCK_SIZE c)))))"

text \<open>Lines 185 to 191: power the card off, lock the flash, report.\<close>

definition copy_sdcard_finish :: "board_config \<Rightarrow> 'hw hal \<Rightarrow> ('hw, secbool) prog" where
  "copy_sdcard_finish c hal =
     bnd (call_void (sdcard_power_off hal) E_sdcard_power_off) (\<lambda>_.
     bnd (ensure c (call (flash_lock_write hal) E_flash_lock_write) None) (\<lambda>_.
     bnd (printf hal ''\<newline>done\<newline>\<newline>'' []) (\<lambda>_.
     bnd (printf hal ''Unplug the device and remove the SD card\<newline>'' []) (\<lambda>_.
     ret (sectrue c)))))"

text \<open>Lines 166 to 191: the write sequence, with the copy loop of lines 175 to 183.\<close>

definition copy_sdcard_write :: "board_config \<Rightarrow> 'hw hal \<Rightarrow> 32 word \<Rightarrow> ('hw, secbool) prog" where
  "copy_sdcard_write c hal clen =
     bnd (copy_sdcard_begin c hal) (\<lambda>_.
     bnd (copy_sdcard_blocks c hal clen 0) (\<lambda>_.
     copy_sdcard_finish c hal))"

text \<open>Lines 133 to 164: erase, then continue with the copy.\<close>

definition copy_sdcard_erase :: "board_config \<Rightarrow> 'hw hal \<Rightarrow> 32 word \<Rightarrow> ('hw, secbool) prog" where
  "copy_sdcard_erase c hal clen =
     bnd (printf hal ''\<newline>\<newline>erasing flash:\<newline>\<newline>'' []) (\<lambda>_.
     bnd (call (flash_erase_sectors hal (copy_sdcard_sectors c) (length (copy_sdcard_sectors c))
                  (Some (progress_callback hal)))
            (E_flash_erase_sectors (copy_sdcard_sectors c) (length (copy_sdcard_sectors c)) True))
         (\<lambda>erased.
     if sectrue c \<noteq> erased then
       bnd (printf hal '' failed\<newline>'' []) (\<lambda>_. ret (secfalse c))
     else
       bnd (printf hal '' done\<newline>\<newline>'' []) (\<lambda>_. copy_sdcard_write c hal clen)))"

text \<open>Lines 112 to 119: backlight and banner.\<close>

definition copy_sdcard_banner :: "'hw hal \<Rightarrow> ('hw, unit) prog" where
  "copy_sdcard_banner hal = steps
     [call_void (display_backlight hal 255) (E_display_backlight 255),
      printf hal ''Trezor Boardloader\<newline>'' [],
      printf hal ''==================\<newline>\<newline>'' [],
      printf hal ''bootloader found on the SD card\<newline>\<newline>'' [],
      printf hal ''applying bootloader in 10 seconds\<newline>\<newline>'' [],
      printf hal ''unplug now if you want to abort\<newline>\<newline>'' []]"

text \<open>
  \<^verbatim>\<open>copy_sdcard\<close>, lines 111 to 192. The variable \<^verbatim>\<open>codelen\<close> is declared
  without a value; the loop assigns it before it is read, and the model starts it at 0.
\<close>

definition copy_sdcard :: "board_config \<Rightarrow> 'hw hal \<Rightarrow> ('hw, secbool) prog" where
  "copy_sdcard c hal =
     bnd (copy_sdcard_banner hal) (\<lambda>_.
     bnd (copy_sdcard_countdown c hal 10 0) (\<lambda>x.
     case x of
       Inl v \<Rightarrow> ret v
     | Inr clen \<Rightarrow> copy_sdcard_erase c hal clen))"

subsection \<open>The boot decision\<close>

text \<open>\<^verbatim>\<open>set_bld_compatible_settings\<close>, lines 198 to 202.\<close>

definition set_bld_compatible_settings :: "board_config \<Rightarrow> 'hw hal \<Rightarrow> ('hw, unit) prog" where
  "set_bld_compatible_settings c hal =
     (if TREZOR_MODEL_T c then call_void (display_set_big_endian hal) E_display_set_big_endian
      else ret ())"

text \<open>
  Lines 232 to 250 of \<^verbatim>\<open>main\<close>: verify the image in the bootloader region of the
  flash and jump to it. \<^verbatim>\<open>load_image_header\<close> returns its verdict and fills the
  header; the first \<^verbatim>\<open>ensure\<close> tests the verdict. \<^verbatim>\<open>jump_to\<close> is a collaborator
  like the others: the call is recorded, and the \<^verbatim>\<open>return 0\<close> that follows it in the
  source follows it here.
\<close>

definition main_boot :: "board_config \<Rightarrow> 'hw hal \<Rightarrow> ('hw, int) prog" where
  "main_boot c hal =
     bnd (call (load_image_header hal (Flash_addr (BOOTLOADER_START c)) (BOOTLOADER_IMAGE_MAGIC c)
                  (BOOTLOADER_IMAGE_MAXSIZE c) BOARDLOADER_KEY_M BOARDLOADER_KEY_N
                  (BOARDLOADER_KEYS c))
            (\<lambda>(r, hdr). E_load_image_header (Flash_addr (BOOTLOADER_START c)) r hdr)) (\<lambda>(r, hdr).
     bnd (ensure c (ret r) (Some ''invalid bootloader header'')) (\<lambda>_.
     bnd (ensure c
            (call (check_image_contents hal hdr (IMAGE_HEADER_SIZE c) [FLASH_SECTOR_BOOTLOADER c] 1)
               (E_check_image_contents hdr (IMAGE_HEADER_SIZE c) [FLASH_SECTOR_BOOTLOADER c]))
            (Some ''invalid bootloader hash'')) (\<lambda>_.
     bnd (set_bld_compatible_settings c hal) (\<lambda>_.
     bnd (call_void (jump_to hal (BOOTLOADER_START c + IMAGE_HEADER_SIZE c))
            (E_jump_to (BOOTLOADER_START c + IMAGE_HEADER_SIZE c))) (\<lambda>_.
     ret 0)))))"

text \<open>
  Lines 224 to 230 of \<^verbatim>\<open>main\<close>, compiled only for \<^verbatim>\<open>TREZOR_MODEL_T\<close>:
  \<open>Some status\<close> stands for the \<^verbatim>\<open>return status\<close> inside the block.
\<close>

definition main_sdcard :: "board_config \<Rightarrow> 'hw hal \<Rightarrow> ('hw, int option) prog" where
  "main_sdcard c hal =
     (if TREZOR_MODEL_T c then
        bnd (call_void (sdcard_init hal) E_sdcard_init) (\<lambda>_.
        bnd (check_sdcard c hal) (\<lambda>found.
        if found \<noteq> 0 then
          bnd (copy_sdcard c hal) (\<lambda>copied. ret (Some (if copied = sectrue c then 0 else 3)))
        else ret None))
      else ret None)"

text \<open>\<^verbatim>\<open>main\<close>, lines 204 to 251.\<close>

definition main :: "board_config \<Rightarrow> 'hw hal \<Rightarrow> ('hw, int) prog" where
  "main c hal =
     bnd (call_void (reset_flags_reset hal) E_reset_flags_reset) (\<lambda>_.
     bnd (call_void (periph_init hal) E_periph_init) (\<lambda>_.
     bnd (call (flash_configure_option_bytes hal) E_flash_configure_option_bytes) (\<lambda>configured.
     if sectrue c \<noteq> configured then
       bnd (call (flash_erase_sectors hal (STORAGE_SECTORS c) (STORAGE_SECTORS_COUNT c) None)
              (E_flash_erase_sectors (STORAGE_SECTORS c) (STORAGE_SECTORS_COUNT c) False)) (\<lambda>r.
       ret 2)
     else
     bnd (call_void (clear_otg_hs_memory hal) E_clear_otg_hs_memory) (\<lambda>_.
     bnd (call_void (display_init hal) E_display_init) (\<lambda>_.
     bnd (call_void (display_clear hal) E_display_clear) (\<lambda>_.
     bnd (main_sdcard c hal) (\<lambda>early.
     case early of
       Some status \<Rightarrow> ret status
     | None \<Rightarrow> main_boot c hal)))))))"

subsection \<open>Observations on the events of a run\<close>

definition is_flash_op :: "event \<Rightarrow> bool" where
  "is_flash_op e = (case e of
       E_flash_erase_sectors _ _ _ _ \<Rightarrow> True
     | E_flash_unlock_write _ \<Rightarrow> True
     | E_flash_lock_write _ \<Rightarrow> True
     | E_flash_write_word _ _ _ _ \<Rightarrow> True
     | _ \<Rightarrow> False)"

definition is_flash_lock :: "event \<Rightarrow> bool" where
  "is_flash_lock e = (case e of E_flash_lock_write _ \<Rightarrow> True | _ \<Rightarrow> False)"

definition is_content_check :: "event \<Rightarrow> bool" where
  "is_content_check e = (case e of E_check_image_contents _ _ _ _ \<Rightarrow> True | _ \<Rightarrow> False)"

definition is_jump :: "event \<Rightarrow> bool" where
  "is_jump e = (case e of E_jump_to _ \<Rightarrow> True | _ \<Rightarrow> False)"

definition is_delay :: "event \<Rightarrow> bool" where
  "is_delay e = (case e of E_hal_delay _ \<Rightarrow> True | _ \<Rightarrow> False)"

text \<open>The calls that reach the SD card driver.\<close>

definition uses_sdcard :: "event \<Rightarrow> bool" where
  "uses_sdcard e = (case e of
       E_sdcard_power_on _ \<Rightarrow> True
     | E_sdcard_get_capacity_in_bytes _ \<Rightarrow> True
     | E_sdcard_read_blocks _ _ _ \<Rightarrow> True
     | E_sdcard_power_off \<Rightarrow> True
     | _ \<Rightarrow> False)"

text \<open>The block numbers read from the card and the flash offsets written, in order.\<close>

definition blocks_read :: "event list \<Rightarrow> 32 word list" where
  "blocks_read es = concat (map (\<lambda>e. case e of E_sdcard_read_blocks b _ _ \<Rightarrow> [b] | _ \<Rightarrow> []) es)"

definition offsets_written :: "event list \<Rightarrow> 32 word list" where
  "offsets_written es =
     concat (map (\<lambda>e. case e of E_flash_write_word _ off _ _ \<Rightarrow> [off] | _ \<Rightarrow> []) es)"

text \<open>The counters that the countdown prints, in order.\<close>

definition counters_printed :: "event list \<Rightarrow> int list" where
  "counters_printed es =
     concat (map (\<lambda>e. case e of E_display_printf fmt args \<Rightarrow> if fmt = ''%d '' then args else []
                       | _ \<Rightarrow> []) es)"

text \<open>
  The events a countdown can produce, and the events the whole recovery flow can
  produce; the latter fixes the sector list of an erase and the sector of a write.
\<close>

definition countdown_event :: "event \<Rightarrow> bool" where
  "countdown_event e = (case e of
       E_display_printf _ _ \<Rightarrow> True
     | E_hal_delay _ \<Rightarrow> True
     | E_sdcard_power_on _ \<Rightarrow> True
     | E_sdcard_get_capacity_in_bytes _ \<Rightarrow> True
     | E_sdcard_power_off \<Rightarrow> True
     | E_memzero _ \<Rightarrow> True
     | E_sdcard_read_blocks _ _ _ \<Rightarrow> True
     | E_load_image_header p _ _ \<Rightarrow> p = Sdcard_buf
     | _ \<Rightarrow> False)"

definition recovery_event :: "board_config \<Rightarrow> event \<Rightarrow> bool" where
  "recovery_event c e = (case e of
       E_display_backlight _ \<Rightarrow> True
     | E_flash_erase_sectors ss _ _ _ \<Rightarrow> ss = copy_sdcard_sectors c
     | E_flash_unlock_write _ \<Rightarrow> True
     | E_flash_lock_write _ \<Rightarrow> True
     | E_flash_write_word s _ _ _ \<Rightarrow> s = FLASH_SECTOR_BOOTLOADER c
     | E_fatal_error _ \<Rightarrow> True
     | _ \<Rightarrow> countdown_event e)"

text \<open>The events the copy loops can produce.\<close>

definition copy_event :: "board_config \<Rightarrow> event \<Rightarrow> bool" where
  "copy_event c e = (case e of
       E_sdcard_read_blocks _ n _ \<Rightarrow> n = 1
     | E_flash_write_word s _ _ _ \<Rightarrow> s = FLASH_SECTOR_BOOTLOADER c
     | E_fatal_error msg \<Rightarrow> msg = None
     | _ \<Rightarrow> False)"

text \<open>
  The events of the SD card block of \<^verbatim>\<open>main\<close>, and the events of \<^verbatim>\<open>main\<close> up to
  that block when the option bytes are in order.
\<close>

definition sdcard_block_event :: "board_config \<Rightarrow> event \<Rightarrow> bool" where
  "sdcard_block_event c e \<longleftrightarrow> e = E_sdcard_init \<or> recovery_event c e"

definition main_prelude :: "board_config \<Rightarrow> event list" where
  "main_prelude c =
     [E_reset_flags_reset, E_periph_init, E_flash_configure_option_bytes (sectrue c),
      E_clear_otg_hs_memory, E_display_init, E_display_clear]"

text \<open>
  \<open>ticks_done c hal k i h\<close> is the hardware state after \<open>k\<close> rounds of the countdown
  loop, started with counter \<open>i\<close> in state \<open>h\<close>, when each of these rounds found a
  candidate (a nonzero code length); otherwise it is \<open>None\<close>.
\<close>

primrec ticks_done :: "board_config \<Rightarrow> 'hw hal \<Rightarrow> nat \<Rightarrow> int \<Rightarrow> 'hw \<Rightarrow> 'hw option" where
  "ticks_done c hal 0 i h = Some h"
| "ticks_done c hal (Suc k) i h =
     (case countdown_tick c hal i h of
        (Ret n, h1, es) \<Rightarrow> if n = 0 then None else ticks_done c hal k (i - 1) h1
      | (Fatal, h1, es) \<Rightarrow> None)"

text \<open>
  The collaborators that the detection and the countdown call leave \<open>flash\<close>, a view of
  the hardware state, as it is.
\<close>

definition countdown_frame :: "'hw hal \<Rightarrow> ('hw \<Rightarrow> 'f) \<Rightarrow> bool" where
  "countdown_frame hal flash \<longleftrightarrow>
     (\<forall>v h. flash (display_backlight hal v h) = flash h) \<and>
     (\<forall>fmt args h. flash (display_printf hal fmt args h) = flash h) \<and>
     (\<forall>ms h. flash (hal_delay hal ms h) = flash h) \<and>
     (\<forall>h. flash (snd (sdcard_power_on hal h)) = flash h) \<and>
     (\<forall>h. flash (snd (sdcard_get_capacity_in_bytes hal h)) = flash h) \<and>
     (\<forall>h. flash (sdcard_power_off hal h) = flash h) \<and>
     (\<forall>n h. flash (memzero hal n h) = flash h) \<and>
     (\<forall>b n h. flash (snd (sdcard_read_blocks hal b n h)) = flash h) \<and>
     (\<forall>p magic maxsize m n keys h.
        flash (snd (load_image_header hal p magic maxsize m n keys h)) = flash h)"





text \<open>
  The word writes of the copy loop leave the block buffer \<^verbatim>\<open>sdcard_buf\<close> as it is.
\<close>

definition copy_frame :: "'hw hal \<Rightarrow> bool" where
  "copy_frame hal \<longleftrightarrow>
     (\<forall>sec off v h j. sdcard_buf hal (snd (flash_write_word hal sec off v h)) j = sdcard_buf hal h j)"

text \<open>
  \<open>block_begins c hal h i\<close> is the hardware state in which round \<open>i\<close> of the copy loop
  begins when the loop is started in \<open>h\<close>, and \<open>block_loaded c hal h i\<close> is the state in
  which \<^verbatim>\<open>sdcard_read_blocks(sdcard_buf, i, 1)\<close> of that round leaves the hardware: the
  buffer then holds what the driver read as block \<open>i\<close>.
\<close>

primrec block_begins :: "board_config \<Rightarrow> 'hw hal \<Rightarrow> 'hw \<Rightarrow> nat \<Rightarrow> 'hw" where
  "block_begins c hal h 0 = h"
| "block_begins c hal h (Suc i) =
     hw_of (copy_sdcard_words c hal i 0
              (snd (sdcard_read_blocks hal (of_nat i) 1 (block_begins c hal h i))))"

definition block_loaded :: "board_config \<Rightarrow> 'hw hal \<Rightarrow> 'hw \<Rightarrow> nat \<Rightarrow> 'hw" where
  "block_loaded c hal h i = snd (sdcard_read_blocks hal (of_nat i) 1 (block_begins c hal h i))"

subsection \<open>A simulated board\<close>

text \<open>
  Concrete runs need concrete collaborators. The simulated board counts the delays,
  remembers what was erased and written, and answers according to a scenario: how long
  the card stays in the slot, what the card and the flash hold, which word write fails.
\<close>

record sim =
  sim_delays :: nat
  sim_unlocked :: bool
  sim_erased :: "8 word list"
  sim_written :: "(8 word \<times> 32 word \<times> 32 word) list"

record scenario =
  sc_option_bytes_ok :: bool
  sc_card_present_for :: nat
  sc_card_capacity :: "64 word"
  sc_card_header_ok :: bool
  sc_card_codelen :: "32 word"
  sc_bad_offset :: "32 word option"
  sc_resident_header_ok :: bool
  sc_resident_codelen :: "32 word"
  sc_resident_hash_ok :: bool

definition verdict :: "board_config \<Rightarrow> bool \<Rightarrow> secbool" where
  "verdict c ok = (if ok then sectrue c else secfalse c)"

definition sim_hal :: "board_config \<Rightarrow> scenario \<Rightarrow> sim hal" where
  "sim_hal c s = \<lparr>
     reset_flags_reset = (\<lambda>h. h),
     periph_init = (\<lambda>h. h),
     flash_configure_option_bytes = (\<lambda>h. (verdict c (sc_option_bytes_ok s), h)),
     flash_erase_sectors = (\<lambda>ss n cb h. (sectrue c, h\<lparr>sim_erased := sim_erased h @ ss\<rparr>)),
     flash_unlock_write = (\<lambda>h. (sectrue c, h\<lparr>sim_unlocked := True\<rparr>)),
     flash_lock_write = (\<lambda>h. (sectrue c, h\<lparr>sim_unlocked := False\<rparr>)),
     flash_write_word = (\<lambda>sec off v h.
        if Some off = sc_bad_offset s then (secfalse c, h)
        else (sectrue c, h\<lparr>sim_written := sim_written h @ [(sec, off, v)]\<rparr>)),
     clear_otg_hs_memory = (\<lambda>h. h),
     display_init = (\<lambda>h. h),
     display_clear = (\<lambda>h. h),
     display_set_big_endian = (\<lambda>h. h),
     display_backlight = (\<lambda>v h. h),
     display_printf = (\<lambda>fmt args h. h),
     hal_delay = (\<lambda>ms h. h\<lparr>sim_delays := Suc (sim_delays h)\<rparr>),
     sdcard_init = (\<lambda>h. h),
     sdcard_power_on = (\<lambda>h. (verdict c (sim_delays h < sc_card_present_for s), h)),
     sdcard_get_capacity_in_bytes = (\<lambda>h. (sc_card_capacity s, h)),
     sdcard_power_off = (\<lambda>h. h),
     memzero = (\<lambda>n h. h),
     sdcard_read_blocks = (\<lambda>b n h. (sectrue c, h)),
     sdcard_buf = (\<lambda>h j. of_nat j),
     load_image_header = (\<lambda>p magic maxsize m n keys h.
        case p of
          Sdcard_buf \<Rightarrow> ((verdict c (sc_card_header_ok s), \<lparr>codelen = sc_card_codelen s\<rparr>), h)
        | Flash_addr a \<Rightarrow>
            ((verdict c (sc_resident_header_ok s), \<lparr>codelen = sc_resident_codelen s\<rparr>), h)),
     check_image_contents = (\<lambda>hdr skip ss n h. (verdict c (sc_resident_hash_ok s), h)),
     jump_to = (\<lambda>a h. h)
   \<rparr>"

definition model_t :: board_config where
  "model_t = \<lparr>
     sectrue = 0xAAAAAAAA,
     secfalse = 0,
     TREZOR_MODEL_T = True,
     PRODUCTION = True,
     IMAGE_HEADER_SIZE = 0x400,
     SDCARD_BLOCK_SIZE = 512,
     BOOTLOADER_START = 0x08020000,
     BOOTLOADER_IMAGE_MAGIC = 0x425A5254,
     BOOTLOADER_IMAGE_MAXSIZE = 0x20000,
     FLASH_SECTOR_BOARDLOADER_START = 0,
     FLASH_SECTOR_BOARDLOADER_END = 2,
     FLASH_SECTOR_STORAGE_1 = 4,
     FLASH_SECTOR_STORAGE_2 = 16,
     FLASH_SECTOR_BOOTLOADER = 5,
     FLASH_SECTOR_FIRMWARE_START = 6,
     FLASH_SECTOR_FIRMWARE_END = 11,
     FLASH_SECTOR_UNUSED_START = 12,
     FLASH_SECTOR_UNUSED_END = 15,
     FLASH_SECTOR_FIRMWARE_EXTRA_START = 17,
     FLASH_SECTOR_FIRMWARE_EXTRA_END = 23,
     STORAGE_SECTORS = [4, 16],
     STORAGE_SECTORS_COUNT = 2
   \<rparr>"

definition sim0 :: sim where
  "sim0 = \<lparr>sim_delays = 0, sim_unlocked = False, sim_erased = [], sim_written = []\<rparr>"

definition no_card :: scenario where
  "no_card = \<lparr>
     sc_option_bytes_ok = True,
     sc_card_present_for = 0,
     sc_card_capacity = 0,
     sc_card_header_ok = False,
     sc_card_codelen = 0,
     sc_bad_offset = None,
     sc_resident_header_ok = True,
     sc_resident_codelen = 0x10000,
     sc_resident_hash_ok = True
   \<rparr>"

definition good_card :: scenario where
  "good_card = no_card\<lparr>sc_card_present_for := 1000, sc_card_capacity := 0x40000000,
     sc_card_header_ok := True, sc_card_codelen := 1100\<rparr>"

definition small_card :: scenario where
  "small_card = good_card\<lparr>sc_card_capacity := 0x80000\<rparr>"

text \<open>The card is pulled out of the slot during the fifth second of the countdown.\<close>

definition pulled_card :: scenario where
  "pulled_card = good_card\<lparr>sc_card_present_for := 5\<rparr>"

text \<open>The first word write of the copy fails.\<close>

definition bad_flash :: scenario where
  "bad_flash = good_card\<lparr>sc_bad_offset := Some 0\<rparr>"

text \<open>The option bytes are not in order.\<close>

definition bad_option_bytes :: scenario where
  "bad_option_bytes = no_card\<lparr>sc_option_bytes_ok := False\<rparr>"

text \<open>What the simulated board holds in flash, and whether the flash is unlocked.\<close>

definition sim_flash :: "sim \<Rightarrow> bool \<times> 8 word list \<times> (8 word \<times> 32 word \<times> 32 word) list" where
  "sim_flash h = (sim_unlocked h, sim_erased h, sim_written h)"


text \<open>
  A second simulated board, for the copy loop. Its hardware state is the number of the
  block that the buffer holds, and word \<open>j\<close> of block \<open>b\<close> of its card is
  \<open>0x10000 * b + j\<close>. Every call succeeds.
\<close>

definition card_board :: "board_config \<Rightarrow> (32 word) hal" where
  "card_board c = \<lparr>
     reset_flags_reset = (\<lambda>h. h),
     periph_init = (\<lambda>h. h),
     flash_configure_option_bytes = (\<lambda>h. (sectrue c, h)),
     flash_erase_sectors = (\<lambda>ss n cb h. (sectrue c, h)),
     flash_unlock_write = (\<lambda>h. (sectrue c, h)),
     flash_lock_write = (\<lambda>h. (sectrue c, h)),
     flash_write_word = (\<lambda>sec off v h. (sectrue c, h)),
     clear_otg_hs_memory = (\<lambda>h. h),
     display_init = (\<lambda>h. h),
     display_clear = (\<lambda>h. h),
     display_set_big_endian = (\<lambda>h. h),
     display_backlight = (\<lambda>v h. h),
     display_printf = (\<lambda>fmt args h. h),
     hal_delay = (\<lambda>ms h. h),
     sdcard_init = (\<lambda>h. h),
     sdcard_power_on = (\<lambda>h. (sectrue c, h)),
     sdcard_get_capacity_in_bytes = (\<lambda>h. (0x40000000, h)),
     sdcard_power_off = (\<lambda>h. h),
     memzero = (\<lambda>n h. h),
     sdcard_read_blocks = (\<lambda>b n h. (sectrue c, b)),
     sdcard_buf = (\<lambda>h j. h * 0x10000 + of_nat j),
     load_image_header = (\<lambda>p magic maxsize m n keys h. ((sectrue c, \<lparr>codelen = 1100\<rparr>), h)),
     check_image_contents = (\<lambda>hdr skip ss n h. (sectrue c, h)),
     jump_to = (\<lambda>a h. h)
   \<rparr>"

subsection \<open>Properties of a piece of the program\<close>

text \<open>
  \<open>only P m\<close>: every event of every run of \<open>m\<close> satisfies \<open>P\<close>. \<open>total m\<close>: no run of
  \<open>m\<close> ends in the fatal-halt primitive. \<open>keeps g m\<close>: every run of \<open>m\<close> leaves the
  view \<open>g\<close> of the hardware state as it was.
\<close>

definition only :: "(event \<Rightarrow> bool) \<Rightarrow> ('hw, 'a) prog \<Rightarrow> bool" where
  "only P m = (\<forall>h. list_all P (events_of (m h)))"

definition total :: "('hw, 'a) prog \<Rightarrow> bool" where
  "total m = (\<forall>h. outcome_of (m h) \<noteq> Fatal)"

definition keeps :: "('hw \<Rightarrow> 'f) \<Rightarrow> ('hw, 'a) prog \<Rightarrow> bool" where
  "keeps g m = (\<forall>h. g (hw_of (m h)) = g h)"

text \<open>
  A failed step of the copy loops: a block read or a word write whose result is not
  \<open>sectrue\<close>. An event is clean when it is neither such a step nor the fatal halt.
  \<open>fail_stop c m\<close>: a run of \<open>m\<close> that returns has clean events only, and a run that
  ends in the fatal halt has clean events up to a failed step, which the halt follows
  at once.
\<close>

definition copy_failed :: "board_config \<Rightarrow> event \<Rightarrow> bool" where
  "copy_failed c e = (case e of
       E_sdcard_read_blocks _ _ r \<Rightarrow> r \<noteq> sectrue c
     | E_flash_write_word _ _ _ r \<Rightarrow> r \<noteq> sectrue c
     | _ \<Rightarrow> False)"

definition clean :: "board_config \<Rightarrow> event \<Rightarrow> bool" where
  "clean c e \<longleftrightarrow> \<not> copy_failed c e \<and> e \<noteq> E_fatal_error None"

definition fail_stop :: "board_config \<Rightarrow> ('hw, 'a) prog \<Rightarrow> bool" where
  "fail_stop c m = (\<forall>h.
     (case outcome_of (m h) of
        Ret x \<Rightarrow> list_all (clean c) (events_of (m h))
      | Fatal \<Rightarrow> (\<exists>pre e. events_of (m h) = pre @ [e, E_fatal_error None] \<and>
                   copy_failed c e \<and> list_all (clean c) pre)))"

section \<open>Proofs\<close>

declare copy_sdcard_countdown.simps [simp del]
declare copy_sdcard_words.simps [simp del]
declare copy_sdcard_blocks.simps [simp del]

subsection \<open>Rules for the pieces\<close>

lemmas run_defs =
  bnd_def ret_def call_def call_void_def fetch_def ensure_def fatal_error_def printf_def

lemma onlyD: "only P m \<Longrightarrow> list_all P (events_of (m h))"
  by (simp add: only_def)

lemma only_mono: "only P m \<Longrightarrow> (\<And>e. P e \<Longrightarrow> Q e) \<Longrightarrow> only Q m"
  by (auto simp: only_def list_all_iff)

lemma only_ret: "only P (ret x)" by (simp add: only_def ret_def)
lemma only_fetch: "only P (fetch g)" by (simp add: only_def fetch_def)
lemma only_call: "(\<And>r. P (ev r)) \<Longrightarrow> only P (call f ev)"
  by (simp add: only_def call_def split: prod.splits)
lemma only_call_void: "P e \<Longrightarrow> only P (call_void f e)" by (simp add: only_def call_void_def)
lemma only_fatal_error: "P (E_fatal_error msg) \<Longrightarrow> only P (fatal_error msg)"
  by (simp add: only_def fatal_error_def)

lemma only_bnd:
  assumes "only P m" and "\<And>x. only P (f x)"
  shows "only P (bnd m f)"
  unfolding only_def
proof
  fix h
  obtain r h1 es1 where m: "m h = (r, h1, es1)" by (cases "m h")
  from assms(1) have es1: "list_all P es1" using m by (auto simp: only_def dest: spec[of _ h])
  show "list_all P (events_of (bnd m f h))"
  proof (cases r)
    case Fatal
    with m es1 show ?thesis by (simp add: bnd_def)
  next
    case (Ret x)
    obtain r2 h2 es2 where f: "f x h1 = (r2, h2, es2)" by (cases "f x h1")
    from assms(2)[of x] have "list_all P es2" using f by (auto simp: only_def dest: spec[of _ h1])
    with m es1 Ret f show ?thesis by (simp add: bnd_def)
  qed
qed

lemma only_if: "(b \<Longrightarrow> only P m) \<Longrightarrow> (\<not> b \<Longrightarrow> only P n) \<Longrightarrow> only P (if b then m else n)"
  by simp

lemma only_case_prod: "(\<And>a b. only P (f a b)) \<Longrightarrow> only P (case_prod f x)"
  by (cases x) simp

lemma only_ensure: "only P m \<Longrightarrow> P (E_fatal_error msg) \<Longrightarrow> only P (ensure c m msg)"
  by (simp add: ensure_def only_bnd only_ret only_fatal_error)

lemma only_printf: "P (E_display_printf fmt args) \<Longrightarrow> only P (printf hal fmt args)"
  by (simp add: printf_def only_call_void)

lemmas only_intros = only_ret only_fetch only_call only_call_void only_fatal_error only_bnd
  only_if only_case_prod only_ensure only_printf

lemma totalD: "total m \<Longrightarrow> outcome_of (m h) \<noteq> Fatal"
  by (simp add: total_def)

lemma total_ret: "total (ret x)" by (simp add: total_def ret_def)
lemma total_fetch: "total (fetch g)" by (simp add: total_def fetch_def)
lemma total_call: "total (call f ev)" by (simp add: total_def call_def split: prod.splits)
lemma total_call_void: "total (call_void f e)" by (simp add: total_def call_void_def)
lemma total_printf: "total (printf hal fmt args)" by (simp add: printf_def total_call_void)

lemma total_bnd:
  assumes "total m" and "\<And>x. total (f x)"
  shows "total (bnd m f)"
  unfolding total_def
proof
  fix h
  obtain r h1 es1 where m: "m h = (r, h1, es1)" by (cases "m h")
  from assms(1) m have "r \<noteq> Fatal" by (auto simp: total_def dest: spec[of _ h])
  then obtain x where r: "r = Ret x" by (cases r) auto
  obtain r2 h2 es2 where f: "f x h1 = (r2, h2, es2)" by (cases "f x h1")
  from assms(2)[of x] f have "r2 \<noteq> Fatal" by (auto simp: total_def dest: spec[of _ h1])
  with m r f show "outcome_of (bnd m f h) \<noteq> Fatal" by (simp add: bnd_def)
qed

lemma total_if: "(b \<Longrightarrow> total m) \<Longrightarrow> (\<not> b \<Longrightarrow> total n) \<Longrightarrow> total (if b then m else n)"
  by simp

lemma total_case_prod: "(\<And>a b. total (f a b)) \<Longrightarrow> total (case_prod f x)"
  by (cases x) simp

lemmas total_intros = total_ret total_fetch total_call total_call_void total_printf total_bnd
  total_if total_case_prod

lemma keepsD: "keeps g m \<Longrightarrow> g (hw_of (m h)) = g h"
  by (simp add: keeps_def)

lemma keeps_ret: "keeps g (ret x)" by (simp add: keeps_def ret_def)
lemma keeps_fetch: "keeps g (fetch k)" by (simp add: keeps_def fetch_def)
lemma keeps_call: "(\<And>h. g (snd (f h)) = g h) \<Longrightarrow> keeps g (call f ev)"
  by (simp add: keeps_def call_def split: prod.splits) (metis snd_conv)
lemma keeps_call_void: "(\<And>h. g (f h) = g h) \<Longrightarrow> keeps g (call_void f e)"
  by (simp add: keeps_def call_void_def)
lemma keeps_printf: "(\<And>h. g (display_printf hal fmt args h) = g h) \<Longrightarrow> keeps g (printf hal fmt args)"
  by (simp add: printf_def keeps_call_void)

lemma keeps_bnd:
  assumes "keeps g m" and "\<And>x. keeps g (f x)"
  shows "keeps g (bnd m f)"
  unfolding keeps_def
proof
  fix h
  obtain r h1 es1 where m: "m h = (r, h1, es1)" by (cases "m h")
  from assms(1) m have h1: "g h1 = g h" by (auto simp: keeps_def dest: spec[of _ h])
  show "g (hw_of (bnd m f h)) = g h"
  proof (cases r)
    case Fatal
    with m h1 show ?thesis by (simp add: bnd_def)
  next
    case (Ret x)
    obtain r2 h2 es2 where f: "f x h1 = (r2, h2, es2)" by (cases "f x h1")
    from assms(2)[of x] f have "g h2 = g h1" by (auto simp: keeps_def dest: spec[of _ h1])
    with m h1 Ret f show ?thesis by (simp add: bnd_def)
  qed
qed

lemma keeps_if: "(b \<Longrightarrow> keeps g m) \<Longrightarrow> (\<not> b \<Longrightarrow> keeps g n) \<Longrightarrow> keeps g (if b then m else n)"
  by simp

lemma keeps_case_prod: "(\<And>a b. keeps g (f a b)) \<Longrightarrow> keeps g (case_prod f x)"
  by (cases x) simp

lemmas keeps_intros = keeps_ret keeps_fetch keeps_call keeps_call_void keeps_printf keeps_bnd
  keeps_if keeps_case_prod

subsection \<open>The simulated board\<close>

lemma sim_hal_simps [simp]:
  "reset_flags_reset (sim_hal c s) = (\<lambda>h. h)"
  "periph_init (sim_hal c s) = (\<lambda>h. h)"
  "flash_configure_option_bytes (sim_hal c s) = (\<lambda>h. (verdict c (sc_option_bytes_ok s), h))"
  "flash_erase_sectors (sim_hal c s) = (\<lambda>ss n cb h. (sectrue c, h\<lparr>sim_erased := sim_erased h @ ss\<rparr>))"
  "flash_unlock_write (sim_hal c s) = (\<lambda>h. (sectrue c, h\<lparr>sim_unlocked := True\<rparr>))"
  "flash_lock_write (sim_hal c s) = (\<lambda>h. (sectrue c, h\<lparr>sim_unlocked := False\<rparr>))"
  "flash_write_word (sim_hal c s) = (\<lambda>sec off v h.
        if Some off = sc_bad_offset s then (secfalse c, h)
        else (sectrue c, h\<lparr>sim_written := sim_written h @ [(sec, off, v)]\<rparr>))"
  "clear_otg_hs_memory (sim_hal c s) = (\<lambda>h. h)"
  "display_init (sim_hal c s) = (\<lambda>h. h)"
  "display_clear (sim_hal c s) = (\<lambda>h. h)"
  "display_set_big_endian (sim_hal c s) = (\<lambda>h. h)"
  "display_backlight (sim_hal c s) = (\<lambda>v h. h)"
  "display_printf (sim_hal c s) = (\<lambda>fmt args h. h)"
  "hal_delay (sim_hal c s) = (\<lambda>ms h. h\<lparr>sim_delays := Suc (sim_delays h)\<rparr>)"
  "sdcard_init (sim_hal c s) = (\<lambda>h. h)"
  "sdcard_power_on (sim_hal c s) = (\<lambda>h. (verdict c (sim_delays h < sc_card_present_for s), h))"
  "sdcard_get_capacity_in_bytes (sim_hal c s) = (\<lambda>h. (sc_card_capacity s, h))"
  "sdcard_power_off (sim_hal c s) = (\<lambda>h. h)"
  "memzero (sim_hal c s) = (\<lambda>n h. h)"
  "sdcard_read_blocks (sim_hal c s) = (\<lambda>b n h. (sectrue c, h))"
  "sdcard_buf (sim_hal c s) = (\<lambda>h j. of_nat j)"
  "load_image_header (sim_hal c s) = (\<lambda>p magic maxsize m n keys h.
        case p of
          Sdcard_buf \<Rightarrow> ((verdict c (sc_card_header_ok s), \<lparr>codelen = sc_card_codelen s\<rparr>), h)
        | Flash_addr a \<Rightarrow>
            ((verdict c (sc_resident_header_ok s), \<lparr>codelen = sc_resident_codelen s\<rparr>), h))"
  "check_image_contents (sim_hal c s) = (\<lambda>hdr skip ss n h. (verdict c (sc_resident_hash_ok s), h))"
  "jump_to (sim_hal c s) = (\<lambda>a h. h)"
  by (simp_all add: sim_hal_def)

lemmas sim_defs = model_t_def sim0_def verdict_def no_card_def good_card_def small_card_def

subsection \<open>Detection\<close>

lemma check_sdcard_only: "only countdown_event (check_sdcard c hal)"
  unfolding check_sdcard_def
  by (intro only_intros) (simp_all add: countdown_event_def split: prod.splits)

lemma check_sdcard_total: "total (check_sdcard c hal)"
  unfolding check_sdcard_def
  by (intro total_intros)

lemma check_sdcard_keeps: "countdown_frame hal flash \<Longrightarrow> keeps flash (check_sdcard c hal)"
  unfolding check_sdcard_def
  by (intro keeps_intros) (simp_all add: countdown_frame_def)

lemma check_sdcard_cases:
  obtains
    (no_power) r h1 where "r \<noteq> sectrue c"
      and "check_sdcard c hal h = (Ret 0, h1, [E_sdcard_power_on r])"
  | (small) cap h1 where "cap < 1024 * 1024"
      and "check_sdcard c hal h =
        (Ret 0, h1, [E_sdcard_power_on (sectrue c), E_sdcard_get_capacity_in_bytes cap,
                     E_sdcard_power_off])"
  | (unread) cap r h1 where "\<not> cap < 1024 * 1024" and "r \<noteq> sectrue c"
      and "check_sdcard c hal h =
        (Ret 0, h1, [E_sdcard_power_on (sectrue c), E_sdcard_get_capacity_in_bytes cap,
                     E_memzero (IMAGE_HEADER_SIZE c),
                     E_sdcard_read_blocks 0 (IMAGE_HEADER_SIZE c div SDCARD_BLOCK_SIZE c) r,
                     E_sdcard_power_off])"
  | (rejected) cap r hdr h1 where "\<not> cap < 1024 * 1024" and "r \<noteq> sectrue c"
      and "check_sdcard c hal h =
        (Ret 0, h1, [E_sdcard_power_on (sectrue c), E_sdcard_get_capacity_in_bytes cap,
                     E_memzero (IMAGE_HEADER_SIZE c),
                     E_sdcard_read_blocks 0 (IMAGE_HEADER_SIZE c div SDCARD_BLOCK_SIZE c) (sectrue c),
                     E_sdcard_power_off,
                     E_load_image_header Sdcard_buf r hdr])"
  | (found) cap hdr h1 where "\<not> cap < 1024 * 1024"
      and "check_sdcard c hal h =
        (Ret (codelen hdr), h1, [E_sdcard_power_on (sectrue c), E_sdcard_get_capacity_in_bytes cap,
                     E_memzero (IMAGE_HEADER_SIZE c),
                     E_sdcard_read_blocks 0 (IMAGE_HEADER_SIZE c div SDCARD_BLOCK_SIZE c) (sectrue c),
                     E_sdcard_power_off,
                     E_load_image_header Sdcard_buf (sectrue c) hdr])"
proof -
  obtain r1 h1 where on: "sdcard_power_on hal h = (r1, h1)"
    by (cases "sdcard_power_on hal h")
  obtain cap h2 where cap: "sdcard_get_capacity_in_bytes hal h1 = (cap, h2)"
    by (cases "sdcard_get_capacity_in_bytes hal h1")
  obtain r2 h3 where rd: "sdcard_read_blocks hal 0 (IMAGE_HEADER_SIZE c div SDCARD_BLOCK_SIZE c)
      (memzero hal (IMAGE_HEADER_SIZE c) h2) = (r2, h3)"
    by (cases "sdcard_read_blocks hal 0 (IMAGE_HEADER_SIZE c div SDCARD_BLOCK_SIZE c)
      (memzero hal (IMAGE_HEADER_SIZE c) h2)")
  obtain r3 hdr h4 where ld: "load_image_header hal Sdcard_buf (BOOTLOADER_IMAGE_MAGIC c)
      (BOOTLOADER_IMAGE_MAXSIZE c) BOARDLOADER_KEY_M BOARDLOADER_KEY_N (BOARDLOADER_KEYS c)
      (sdcard_power_off hal h3) = ((r3, hdr), h4)"
    by (cases "load_image_header hal Sdcard_buf (BOOTLOADER_IMAGE_MAGIC c)
      (BOOTLOADER_IMAGE_MAXSIZE c) BOARDLOADER_KEY_M BOARDLOADER_KEY_N (BOARDLOADER_KEYS c)
      (sdcard_power_off hal h3)") auto
  show thesis
  proof (cases "r1 = sectrue c")
    case False
    with on show thesis
      by (intro no_power[of r1 h1]) (simp_all add: check_sdcard_def run_defs)
  next
    case powered: True
    show thesis
    proof (cases "cap < 1024 * 1024")
      case True
      with on cap powered show thesis
        by (intro small[of cap "sdcard_power_off hal h2"]) (simp_all add: check_sdcard_def run_defs)
    next
      case large: False
      show thesis
      proof (cases "r2 = sectrue c")
        case False
        with on cap powered large rd show thesis
          by (intro unread[of cap r2 "sdcard_power_off hal h3"])
             (simp_all add: check_sdcard_def run_defs)
      next
        case read: True
        show thesis
        proof (cases "r3 = sectrue c")
          case False
          with on cap powered large rd read ld show thesis
            by (intro rejected[of cap r3 h4 hdr]) (simp_all add: check_sdcard_def run_defs)
        next
          case True
          with on cap powered large rd read ld show thesis
            by (intro found[of cap hdr h4]) (simp_all add: check_sdcard_def run_defs)
        qed
      qed
    qed
  qed
qed

text \<open>
  C9. The detection returns 0 for a card that reports a capacity below \<open>1024 * 1024\<close>
  bytes. Whenever powering the card on succeeded, the last call to the card driver in
  the detection is the power-off. The detection always returns.
\<close>

theorem check_sdcard_capacity_and_power_off:
  "(E_sdcard_get_capacity_in_bytes cap \<in> set (events_of (check_sdcard c hal h)) \<and> cap < 1024 * 1024
      \<longrightarrow> outcome_of (check_sdcard c hal h) = Ret 0) \<and>
   (E_sdcard_power_on (sectrue c) \<in> set (events_of (check_sdcard c hal h))
      \<longrightarrow> last (filter uses_sdcard (events_of (check_sdcard c hal h))) = E_sdcard_power_off) \<and>
   outcome_of (check_sdcard c hal h) \<noteq> Fatal"
  by (cases c hal h rule: check_sdcard_cases) (auto simp: uses_sdcard_def)

theorem check_sdcard_capacity_and_power_off_witness:
  "E_sdcard_get_capacity_in_bytes 0x80000
     \<in> set (events_of (check_sdcard model_t (sim_hal model_t small_card) sim0)) \<and>
   (0x80000 :: 64 word) < 1024 * 1024 \<and>
   outcome_of (check_sdcard model_t (sim_hal model_t small_card) sim0) = Ret 0 \<and>
   E_sdcard_power_on (sectrue model_t)
     \<in> set (events_of (check_sdcard model_t (sim_hal model_t small_card) sim0)) \<and>
   last (filter uses_sdcard (events_of (check_sdcard model_t (sim_hal model_t small_card) sim0)))
     = E_sdcard_power_off"
  using check_sdcard_capacity_and_power_off
          [of "0x80000" model_t "sim_hal model_t small_card" sim0]
  by (simp add: check_sdcard_def run_defs sim_defs)

text \<open>
  C5, as the code has it. The detection never calls the content checker. It reports a
  nonzero code length only after powering the card on, finding a capacity of at least
  \<open>1024 * 1024\<close> bytes, reading the header-sized prefix and loading the header from it
  all succeeded; the length is the one in the loaded header.
\<close>

theorem check_sdcard_header_only:
  "filter is_content_check (events_of (check_sdcard c hal h)) = [] \<and>
   (outcome_of (check_sdcard c hal h) = Ret n \<and> n \<noteq> 0 \<longrightarrow>
      (\<exists>cap hdr. \<not> cap < 1024 * 1024 \<and> codelen hdr = n \<and>
         events_of (check_sdcard c hal h) =
           [E_sdcard_power_on (sectrue c),
            E_sdcard_get_capacity_in_bytes cap,
            E_memzero (IMAGE_HEADER_SIZE c),
            E_sdcard_read_blocks 0 (IMAGE_HEADER_SIZE c div SDCARD_BLOCK_SIZE c) (sectrue c),
            E_sdcard_power_off,
            E_load_image_header Sdcard_buf (sectrue c) hdr]))"
  by (cases c hal h rule: check_sdcard_cases) (auto simp: is_content_check_def)

theorem check_sdcard_header_only_witness:
  "outcome_of (check_sdcard model_t (sim_hal model_t good_card) sim0) = Ret 1100 \<and>
   (1100 :: 32 word) \<noteq> 0 \<and>
   events_of (check_sdcard model_t (sim_hal model_t good_card) sim0) =
     [E_sdcard_power_on (sectrue model_t),
      E_sdcard_get_capacity_in_bytes 0x40000000,
      E_memzero 0x400,
      E_sdcard_read_blocks 0 2 (sectrue model_t),
      E_sdcard_power_off,
      E_load_image_header Sdcard_buf (sectrue model_t) \<lparr>codelen = 1100\<rparr>]"
  using check_sdcard_header_only [of model_t "sim_hal model_t good_card" sim0 1100]
  by (simp add: check_sdcard_def run_defs sim_defs)

text \<open>
  C5, as the claim states it, fails: on a card with a valid header the detection reports
  the code length 1100 although the content checker was never called.
\<close>

theorem check_sdcard_without_content_check:
  "outcome_of (check_sdcard model_t (sim_hal model_t good_card) sim0) = Ret 1100 \<and>
   (1100 :: 32 word) \<noteq> 0 \<and>
   filter is_content_check (events_of (check_sdcard model_t (sim_hal model_t good_card) sim0)) = []"
  by (simp add: check_sdcard_def run_defs sim_defs is_content_check_def)

subsection \<open>The countdown\<close>

lemma check_sdcard_no_delay: "filter is_delay (events_of (check_sdcard c hal h)) = []"
  by (cases c hal h rule: check_sdcard_cases) (auto simp: is_delay_def)

lemma countdown_tick_only: "only countdown_event (countdown_tick c hal i)"
  unfolding countdown_tick_def
  by (intro only_intros check_sdcard_only) (simp_all add: countdown_event_def)

lemma countdown_tick_total: "total (countdown_tick c hal i)"
  unfolding countdown_tick_def
  by (intro total_intros check_sdcard_total)

lemma countdown_tick_keeps: "countdown_frame hal flash \<Longrightarrow> keeps flash (countdown_tick c hal i)"
  unfolding countdown_tick_def
  by (intro keeps_intros check_sdcard_keeps) (simp_all add: countdown_frame_def)

lemma countdown_tick_one_delay:
  "length (filter is_delay (events_of (countdown_tick c hal i h))) = 1"
proof -
  obtain r h1 es where "check_sdcard c hal (hal_delay hal 1000 (display_printf hal ''%d '' [i] h))
       = (r, h1, es)"
    by (cases "check_sdcard c hal (hal_delay hal 1000 (display_printf hal ''%d '' [i] h))")
  moreover from this have "filter is_delay es = []"
    using check_sdcard_no_delay[of c hal "hal_delay hal 1000 (display_printf hal ''%d '' [i] h)"]
    by simp
  moreover have "r \<noteq> Fatal"
    using calculation(1) totalD[OF check_sdcard_total, of c hal] by (metis fst_conv)
  ultimately show ?thesis
    by (cases r) (simp_all add: countdown_tick_def run_defs is_delay_def)
qed


lemma copy_sdcard_countdown_only: "only countdown_event (copy_sdcard_countdown c hal i clen)"
proof (induction c hal i clen rule: copy_sdcard_countdown.induct)
  case (1 c hal i clen)
  show ?case
    by (subst copy_sdcard_countdown.simps)
       (intro only_intros countdown_tick_only "1.IH"; simp add: countdown_event_def)
qed

lemma copy_sdcard_countdown_total: "total (copy_sdcard_countdown c hal i clen)"
proof (induction c hal i clen rule: copy_sdcard_countdown.induct)
  case (1 c hal i clen)
  show ?case
    by (subst copy_sdcard_countdown.simps)
       (intro total_intros countdown_tick_total "1.IH"; simp)
qed

lemma copy_sdcard_countdown_keeps:
  "countdown_frame hal flash \<Longrightarrow> keeps flash (copy_sdcard_countdown c hal i clen)"
proof (induction c hal i clen rule: copy_sdcard_countdown.induct)
  case (1 c hal i clen)
  show ?case
    by (subst copy_sdcard_countdown.simps)
       (intro keeps_intros countdown_tick_keeps "1.IH" "1.prems"; 
        insert "1.prems"; simp add: countdown_frame_def)
qed

lemma countdown_abort_step:
  assumes "0 \<le> i" and "countdown_tick c hal i h = (Ret 0, h1, es)"
  shows "copy_sdcard_countdown c hal i clen h =
    (Ret (Inl (secfalse c)),
     display_printf hal ''\<newline>\<newline>no SD card, aborting\<newline>'' [] h1,
     es @ [E_display_printf ''\<newline>\<newline>no SD card, aborting\<newline>'' []])"
  using assms by (subst copy_sdcard_countdown.simps) (simp add: run_defs)

lemma countdown_next_step:
  assumes "0 \<le> i" and "countdown_tick c hal i h = (Ret n, h1, es)" and "n \<noteq> 0"
  shows "copy_sdcard_countdown c hal i clen h =
    (outcome_of (copy_sdcard_countdown c hal (i - 1) n h1),
     hw_of (copy_sdcard_countdown c hal (i - 1) n h1),
     es @ events_of (copy_sdcard_countdown c hal (i - 1) n h1))"
  using assms
  by (subst copy_sdcard_countdown.simps)
     (auto simp add: run_defs split: prod.splits outcome.splits)

lemma is_delay_simps [simp]:
  "is_delay (E_hal_delay ms)"
  "\<not> is_delay (E_display_printf fmt args)"
  by (simp_all add: is_delay_def)

lemma countdown_aborts:
  "ticks_done c hal k i h = Some hk \<Longrightarrow> int k \<le> i \<Longrightarrow>
   outcome_of (countdown_tick c hal (i - int k) hk) = Ret 0 \<Longrightarrow>
   outcome_of (copy_sdcard_countdown c hal i clen h) = Ret (Inl (secfalse c)) \<and>
   length (filter is_delay (events_of (copy_sdcard_countdown c hal i clen h))) = Suc k"
proof (induction k arbitrary: i h clen)
  case 0
  then obtain h1 es where t: "countdown_tick c hal i h = (Ret 0, h1, es)"
    by (cases "countdown_tick c hal i h") auto
  from 0 have [simp]: "hk = h" by simp
  from countdown_tick_one_delay[of c hal i h] t have "length (filter is_delay es) = 1" by simp
  with 0 t show ?case
    by (simp add: countdown_abort_step[OF _ t])
next
  case (Suc k)
  from Suc.prems(1) obtain n h1 es where t: "countdown_tick c hal i h = (Ret n, h1, es)"
    and n: "n \<noteq> 0" and rest: "ticks_done c hal k (i - 1) h1 = Some hk"
    by (auto split: prod.splits outcome.splits if_splits)
  from Suc.prems(2) have i: "0 \<le> i" "int k \<le> i - 1" by auto
  from Suc.prems(3) have z: "outcome_of (countdown_tick c hal (i - 1 - int k) hk) = Ret 0"
    by (simp add: algebra_simps)
  from countdown_tick_one_delay[of c hal i h] t have d: "length (filter is_delay es) = 1" by simp
  from Suc.IH[OF rest i(2) z, of n] d show ?case
    by (simp add: countdown_next_step[OF i(1) t n])
qed

lemma countdown_completes:
  "outcome_of (copy_sdcard_countdown c hal i clen h) = Ret (Inr n) \<Longrightarrow> - 1 \<le> i \<Longrightarrow>
   length (filter is_delay (events_of (copy_sdcard_countdown c hal i clen h))) = nat (i + 1)"
proof (induction c hal i clen arbitrary: h rule: copy_sdcard_countdown.induct)
  case (1 c hal i clen)
  show ?case
  proof (cases "0 \<le> i")
    case False
    with "1.prems" show ?thesis by (subst copy_sdcard_countdown.simps) (simp add: run_defs)
  next
    case True
    obtain r h1 es where t: "countdown_tick c hal i h = (r, h1, es)"
      by (cases "countdown_tick c hal i h")
    with totalD[OF countdown_tick_total, of c hal i h] obtain m where r: "r = Ret m"
      by (cases r) auto
    from countdown_tick_one_delay[of c hal i h] t have d: "length (filter is_delay es) = 1" by simp
    show ?thesis
    proof (cases "m = 0")
      case True
      with "1.prems" t r \<open>0 \<le> i\<close> show ?thesis
        by (simp add: countdown_abort_step[of i c hal h h1 es])
    next
      case False
      from "1.prems"(1) have "outcome_of (copy_sdcard_countdown c hal (i - 1) m h1) = Ret (Inr n)"
        using t r False True
        by (simp add: countdown_next_step[of i c hal h m h1 es])
      from "1.IH"[OF True _ this] False True
      have "length (filter is_delay (events_of (copy_sdcard_countdown c hal (i - 1) m h1))) = nat i"
        by auto
      with d t r False True show ?thesis
        by (simp add: countdown_next_step[of i c hal h m h1 es] nat_add_distrib)
    qed
  qed
qed

subsection \<open>The recovery flow up to the end of the countdown\<close>

lemma steps_only: "list_all (only P) ms \<Longrightarrow> only P (steps ms)"
  by (induction ms) (auto intro: only_intros)

lemma steps_total: "list_all total ms \<Longrightarrow> total (steps ms)"
  by (induction ms) (auto intro: total_intros)

lemma steps_keeps: "list_all (keeps g) ms \<Longrightarrow> keeps g (steps ms)"
  by (induction ms) (auto intro: keeps_intros)

lemma countdown_event_recovery: "countdown_event e \<Longrightarrow> recovery_event c e"
  by (cases e) (simp_all add: countdown_event_def recovery_event_def)

lemma countdown_event_no_flash_op: "countdown_event e \<Longrightarrow> \<not> is_flash_op e"
  by (cases e) (simp_all add: countdown_event_def is_flash_op_def)

lemma copy_sdcard_banner_only:
  "only (\<lambda>e. \<not> is_flash_op e \<and> \<not> is_delay e \<and> recovery_event c e) (copy_sdcard_banner hal)"
  unfolding copy_sdcard_banner_def
  by (intro steps_only)
     (simp add: only_call_void only_printf is_flash_op_def is_delay_def recovery_event_def
        countdown_event_def)

lemma copy_sdcard_banner_total: "total (copy_sdcard_banner hal)"
  unfolding copy_sdcard_banner_def
  by (intro steps_total) (simp add: total_intros)

lemma copy_sdcard_banner_keeps: "countdown_frame hal flash \<Longrightarrow> keeps flash (copy_sdcard_banner hal)"
  unfolding copy_sdcard_banner_def
  by (intro steps_keeps) (simp add: keeps_call_void keeps_printf countdown_frame_def)

lemma copy_sdcard_aborted:
  assumes "outcome_of (copy_sdcard_countdown c hal 10 0 (hw_of (copy_sdcard_banner hal h))) = Ret (Inl v)"
  shows "copy_sdcard c hal h =
    (Ret v, hw_of (copy_sdcard_countdown c hal 10 0 (hw_of (copy_sdcard_banner hal h))),
     events_of (copy_sdcard_banner hal h)
       @ events_of (copy_sdcard_countdown c hal 10 0 (hw_of (copy_sdcard_banner hal h))))"
proof -
  obtain r h1 es where b: "copy_sdcard_banner hal h = (r, h1, es)"
    by (cases "copy_sdcard_banner hal h")
  with totalD[OF copy_sdcard_banner_total, of hal h] have r: "r = Ret ()"
    by (cases r) auto
  obtain r2 h2 es2 where cd: "copy_sdcard_countdown c hal 10 0 h1 = (r2, h2, es2)"
    by (cases "copy_sdcard_countdown c hal 10 0 h1")
  from assms b cd have "r2 = Ret (Inl v)" by simp
  with b r cd show ?thesis
    by (simp add: copy_sdcard_def bnd_def ret_def)
qed

text \<open>
  C3. Let the first \<open>k\<close> rounds of the countdown (\<open>k \<le> 10\<close>) each find a candidate and
  let the detection of the next round, with counter \<open>10 - k\<close>, return 0. Then
  \<^verbatim>\<open>copy_sdcard\<close> returns \<open>secfalse\<close>; no further round is run (the run has \<open>k + 1\<close>
  delays); the run calls none of the flash operations (erase, unlock, word write, lock);
  and any view of the hardware state that the collaborators of the countdown leave alone,
  such as the contents of the flash, is the same after the run as before.
\<close>

theorem copy_sdcard_abort_leaves_flash:
  assumes "k \<le> 10"
    and "ticks_done c hal k 10 (hw_of (copy_sdcard_banner hal h)) = Some hk"
    and "outcome_of (countdown_tick c hal (10 - int k) hk) = Ret 0"
  shows "outcome_of (copy_sdcard c hal h) = Ret (secfalse c) \<and>
         filter is_flash_op (events_of (copy_sdcard c hal h)) = [] \<and>
         length (filter is_delay (events_of (copy_sdcard c hal h))) = Suc k \<and>
         (countdown_frame hal flash \<longrightarrow> flash (hw_of (copy_sdcard c hal h)) = flash h)"
proof -
  let ?h0 = "hw_of (copy_sdcard_banner hal h)"
  let ?cd = "copy_sdcard_countdown c hal 10 0 ?h0"
  from assms(1) have "int k \<le> 10" by simp
  from countdown_aborts[OF assms(2) this assms(3), of 0]
  have out: "outcome_of ?cd = Ret (Inl (secfalse c))"
    and ticks: "length (filter is_delay (events_of ?cd)) = Suc k"
    by simp_all
  note run = copy_sdcard_aborted[OF out]
  have b: "list_all (\<lambda>e. \<not> is_flash_op e \<and> \<not> is_delay e \<and> recovery_event c e)
             (events_of (copy_sdcard_banner hal h))"
    by (rule onlyD[OF copy_sdcard_banner_only])
  have cd: "list_all countdown_event (events_of ?cd)"
    by (rule onlyD[OF copy_sdcard_countdown_only])
  have "filter is_flash_op (events_of (copy_sdcard_banner hal h)) = []"
    using b by (auto simp: filter_empty_conv list_all_iff)
  moreover have "filter is_flash_op (events_of ?cd) = []"
    using cd by (auto simp: filter_empty_conv list_all_iff dest: countdown_event_no_flash_op)
  moreover have "filter is_delay (events_of (copy_sdcard_banner hal h)) = []"
    using b by (auto simp: filter_empty_conv list_all_iff)
  moreover have "flash (hw_of ?cd) = flash h" if "countdown_frame hal flash"
    using keepsD[OF copy_sdcard_countdown_keeps[OF that], of c 10 0 ?h0]
      keepsD[OF copy_sdcard_banner_keeps[OF that], of h]
    by simp
  ultimately show ?thesis
    using ticks by (simp add: run)
qed

lemma sim_countdown_frame: "countdown_frame (sim_hal c s) sim_flash"
  by (simp add: countdown_frame_def sim_flash_def split: image_ptr.splits)

lemma sim_banner: "copy_sdcard_banner (sim_hal c s) h =
  (Ret (), h,
   [E_display_backlight 255,
    E_display_printf ''Trezor Boardloader\<newline>'' [],
    E_display_printf ''==================\<newline>\<newline>'' [],
    E_display_printf ''bootloader found on the SD card\<newline>\<newline>'' [],
    E_display_printf ''applying bootloader in 10 seconds\<newline>\<newline>'' [],
    E_display_printf ''unplug now if you want to abort\<newline>\<newline>'' []])"
  by (simp add: copy_sdcard_banner_def run_defs)

lemma sim_tick_pulled:
  "countdown_tick model_t (sim_hal model_t pulled_card) i h =
     (if Suc (sim_delays h) < 5
      then (Ret 1100, h\<lparr>sim_delays := Suc (sim_delays h)\<rparr>,
            [E_display_printf ''%d '' [i], E_hal_delay 1000,
             E_sdcard_power_on (sectrue model_t), E_sdcard_get_capacity_in_bytes 0x40000000,
             E_memzero 0x400, E_sdcard_read_blocks 0 2 (sectrue model_t), E_sdcard_power_off,
             E_load_image_header Sdcard_buf (sectrue model_t) \<lparr>codelen = 1100\<rparr>])
      else (Ret 0, h\<lparr>sim_delays := Suc (sim_delays h)\<rparr>,
            [E_display_printf ''%d '' [i], E_hal_delay 1000, E_sdcard_power_on (secfalse model_t)]))"
  by (simp add: countdown_tick_def check_sdcard_def run_defs sim_defs pulled_card_def)

theorem copy_sdcard_abort_leaves_flash_witness:
  "(4 :: nat) \<le> 10 \<and>
   ticks_done model_t (sim_hal model_t pulled_card) 4 10
       (hw_of (copy_sdcard_banner (sim_hal model_t pulled_card) sim0))
     = Some (sim0\<lparr>sim_delays := 4\<rparr>) \<and>
   outcome_of (countdown_tick model_t (sim_hal model_t pulled_card) (10 - int 4)
       (sim0\<lparr>sim_delays := 4\<rparr>)) = Ret 0 \<and>
   outcome_of (copy_sdcard model_t (sim_hal model_t pulled_card) sim0) = Ret (secfalse model_t) \<and>
   filter is_flash_op (events_of (copy_sdcard model_t (sim_hal model_t pulled_card) sim0)) = [] \<and>
   length (filter is_delay (events_of (copy_sdcard model_t (sim_hal model_t pulled_card) sim0))) = 5 \<and>
   countdown_frame (sim_hal model_t pulled_card) sim_flash \<and>
   sim_flash (hw_of (copy_sdcard model_t (sim_hal model_t pulled_card) sim0)) = sim_flash sim0"
proof -
  have a: "(4 :: nat) \<le> 10" by simp
  have b: "ticks_done model_t (sim_hal model_t pulled_card) 4 10
       (hw_of (copy_sdcard_banner (sim_hal model_t pulled_card) sim0))
     = Some (sim0\<lparr>sim_delays := 4\<rparr>)"
  proof -
    have four: "(4 :: nat) = Suc (Suc (Suc (Suc 0)))" by simp
    show ?thesis
      unfolding four by (simp add: sim_banner sim_tick_pulled sim0_def)
  qed
  have c: "outcome_of (countdown_tick model_t (sim_hal model_t pulled_card) (10 - int 4)
       (sim0\<lparr>sim_delays := 4\<rparr>)) = Ret 0"
    by (simp add: sim_tick_pulled)
  from copy_sdcard_abort_leaves_flash[OF a b c, of sim_flash] a b c sim_countdown_frame
  show ?thesis by simp
qed

subsection \<open>The recovery flow after the countdown\<close>

lemma copy_sdcard_words_only: "only (copy_event c) (copy_sdcard_words c hal i j)"
proof (induction c hal i j rule: copy_sdcard_words.induct)
  case (1 c hal i j)
  show ?case
    by (subst copy_sdcard_words.simps)
       (intro only_intros "1.IH"; simp add: copy_event_def)
qed

lemma copy_sdcard_blocks_only: "only (copy_event c) (copy_sdcard_blocks c hal clen i)"
proof (induction c hal clen i rule: copy_sdcard_blocks.induct)
  case (1 c hal clen i)
  show ?case
    by (subst copy_sdcard_blocks.simps)
       (intro only_intros copy_sdcard_words_only "1.IH"; simp add: copy_event_def)
qed

lemma copy_event_recovery: "copy_event c e \<Longrightarrow> recovery_event c e \<and> \<not> is_delay e"
  by (cases e) (simp_all add: copy_event_def recovery_event_def countdown_event_def is_delay_def)

lemma copy_event_no_lock: "copy_event c e \<Longrightarrow> \<not> is_flash_lock e"
  by (cases e) (simp_all add: copy_event_def is_flash_lock_def)

lemma copy_sdcard_begin_only:
  "only (\<lambda>e. \<not> copy_failed c e \<and> \<not> is_flash_lock e \<and> recovery_event c e \<and> \<not> is_delay e)
     (copy_sdcard_begin c hal)"
  unfolding copy_sdcard_begin_def
  by (intro only_intros;
      simp add: copy_failed_def is_flash_lock_def recovery_event_def countdown_event_def is_delay_def)

lemma copy_sdcard_finish_only:
  "only (\<lambda>e. \<not> copy_failed c e \<and> recovery_event c e \<and> \<not> is_delay e) (copy_sdcard_finish c hal)"
  unfolding copy_sdcard_finish_def
  by (intro only_intros;
      simp add: copy_failed_def recovery_event_def countdown_event_def is_delay_def)

lemma copy_sdcard_write_only:
  "only (\<lambda>e. recovery_event c e \<and> \<not> is_delay e) (copy_sdcard_write c hal clen)"
proof -
  have "only (\<lambda>e. recovery_event c e \<and> \<not> is_delay e) (copy_sdcard_begin c hal)"
    by (rule only_mono[OF copy_sdcard_begin_only[of c hal]]) simp
  moreover have "only (\<lambda>e. recovery_event c e \<and> \<not> is_delay e) (copy_sdcard_blocks c hal clen 0)"
    by (rule only_mono[OF copy_sdcard_blocks_only]) (rule copy_event_recovery)
  moreover have "only (\<lambda>e. recovery_event c e \<and> \<not> is_delay e) (copy_sdcard_finish c hal)"
    by (rule only_mono[OF copy_sdcard_finish_only[of c hal]]) simp
  ultimately show ?thesis
    unfolding copy_sdcard_write_def by (intro only_bnd)
qed

lemma copy_sdcard_erase_only:
  "only (\<lambda>e. recovery_event c e \<and> \<not> is_delay e) (copy_sdcard_erase c hal clen)"
  unfolding copy_sdcard_erase_def
  by (intro only_intros copy_sdcard_write_only;
      simp add: recovery_event_def countdown_event_def is_delay_def)

lemma copy_sdcard_only: "only (recovery_event c) (copy_sdcard c hal)"
proof -
  have "only (recovery_event c) (copy_sdcard_banner hal)"
    by (rule only_mono[OF copy_sdcard_banner_only[where c=c]]) simp
  moreover have "only (recovery_event c) (copy_sdcard_countdown c hal 10 0)"
    by (rule only_mono[OF copy_sdcard_countdown_only]) (rule countdown_event_recovery)
  moreover have "only (recovery_event c) (copy_sdcard_erase c hal clen)" for clen
    by (rule only_mono[OF copy_sdcard_erase_only]) simp
  ultimately show ?thesis
    unfolding copy_sdcard_def
    by (intro only_intros) (auto intro: only_intros split: sum.splits)
qed

lemma copy_sdcard_continued:
  assumes "outcome_of (copy_sdcard_countdown c hal 10 0 (hw_of (copy_sdcard_banner hal h))) = Ret (Inr n)"
  shows "copy_sdcard c hal h =
    (outcome_of (copy_sdcard_erase c hal n
        (hw_of (copy_sdcard_countdown c hal 10 0 (hw_of (copy_sdcard_banner hal h))))),
     hw_of (copy_sdcard_erase c hal n
        (hw_of (copy_sdcard_countdown c hal 10 0 (hw_of (copy_sdcard_banner hal h))))),
     events_of (copy_sdcard_banner hal h)
       @ events_of (copy_sdcard_countdown c hal 10 0 (hw_of (copy_sdcard_banner hal h)))
       @ events_of (copy_sdcard_erase c hal n
        (hw_of (copy_sdcard_countdown c hal 10 0 (hw_of (copy_sdcard_banner hal h))))))"
proof -
  obtain r h1 es where b: "copy_sdcard_banner hal h = (r, h1, es)"
    by (cases "copy_sdcard_banner hal h")
  with totalD[OF copy_sdcard_banner_total, of hal h] have r: "r = Ret ()"
    by (cases r) auto
  obtain r2 h2 es2 where cd: "copy_sdcard_countdown c hal 10 0 h1 = (r2, h2, es2)"
    by (cases "copy_sdcard_countdown c hal 10 0 h1")
  from assms b cd have "r2 = Ret (Inr n)" by simp
  with b r cd show ?thesis
    by (simp add: copy_sdcard_def bnd_def ret_def split: prod.splits)
qed





lemma sim_tick_good:
  "countdown_tick model_t (sim_hal model_t good_card) i h =
     (if Suc (sim_delays h) < 1000
      then (Ret 1100, h\<lparr>sim_delays := Suc (sim_delays h)\<rparr>,
            [E_display_printf ''%d '' [i], E_hal_delay 1000,
             E_sdcard_power_on (sectrue model_t), E_sdcard_get_capacity_in_bytes 0x40000000,
             E_memzero 0x400, E_sdcard_read_blocks 0 2 (sectrue model_t), E_sdcard_power_off,
             E_load_image_header Sdcard_buf (sectrue model_t) \<lparr>codelen = 1100\<rparr>])
      else (Ret 0, h\<lparr>sim_delays := Suc (sim_delays h)\<rparr>,
            [E_display_printf ''%d '' [i], E_hal_delay 1000, E_sdcard_power_on (secfalse model_t)]))"
  by (simp add: countdown_tick_def check_sdcard_def run_defs sim_defs)

lemma sim_countdown_good:
  "outcome_of (copy_sdcard_countdown model_t (sim_hal model_t good_card) 10 0 sim0) = Ret (Inr 1100) \<and>
   hw_of (copy_sdcard_countdown model_t (sim_hal model_t good_card) 10 0 sim0) = sim0\<lparr>sim_delays := 11\<rparr> \<and>
   map (\<lambda>e. case e of E_display_printf f a \<Rightarrow> a | _ \<Rightarrow> [])
     (filter (\<lambda>e. case e of E_display_printf f a \<Rightarrow> True | _ \<Rightarrow> False)
       (events_of (copy_sdcard_countdown model_t (sim_hal model_t good_card) 10 0 sim0)))
     = [[10], [9], [8], [7], [6], [5], [4], [3], [2], [1], [0]]"
  by (simp add: copy_sdcard_countdown.simps sim_tick_good bnd_def ret_def sim0_def)





text \<open>
  A countdown that runs to its end has eleven delays: the loop counts from 10 down to 0,
  both included.
\<close>

lemma copy_sdcard_eleven_delays:
  assumes "outcome_of (copy_sdcard_countdown c hal 10 0 (hw_of (copy_sdcard_banner hal h))) = Ret (Inr n)"
  shows "length (filter is_delay (events_of (copy_sdcard c hal h))) = 11"
proof -
  have "filter is_delay (events_of (copy_sdcard_banner hal h)) = []"
    using onlyD[OF copy_sdcard_banner_only, of c hal h]
    by (auto simp: filter_empty_conv list_all_iff)
  moreover have "filter is_delay (events_of (copy_sdcard_erase c hal n h')) = []" for h'
    using onlyD[OF copy_sdcard_erase_only, of c hal n h']
    by (auto simp: filter_empty_conv list_all_iff)
  moreover have "length (filter is_delay
      (events_of (copy_sdcard_countdown c hal 10 0 (hw_of (copy_sdcard_banner hal h))))) = 11"
    using countdown_completes[OF assms] by simp
  ultimately show ?thesis
    by (simp add: copy_sdcard_continued[OF assms])
qed

text \<open>
  C6 on the code. With a valid image on a card that stays in the slot, the run of
  \<^verbatim>\<open>copy_sdcard\<close> has eleven delays of 1000 ms, one per round of the countdown, and
  the rounds print the counters 10 down to 0. The banner of the same function announces
  "applying bootloader in 10 seconds".
\<close>

theorem copy_sdcard_countdown_eleven_ticks:
  "length (filter is_delay (events_of (copy_sdcard model_t (sim_hal model_t good_card) sim0))) = 11 \<and>
   counters_printed (events_of (copy_sdcard_countdown model_t (sim_hal model_t good_card) 10 0
       (hw_of (copy_sdcard_banner (sim_hal model_t good_card) sim0))))
     = [10, 9, 8, 7, 6, 5, 4, 3, 2, 1, 0]"
proof -
  let ?H = "sim_hal model_t good_card"
  have "outcome_of (copy_sdcard_countdown model_t ?H 10 0 (hw_of (copy_sdcard_banner ?H sim0)))
          = Ret (Inr 1100)"
    using sim_countdown_good by (simp add: sim_banner)
  from copy_sdcard_eleven_delays[OF this]
  have "length (filter is_delay (events_of (copy_sdcard model_t ?H sim0))) = 11" .
  moreover have "counters_printed (events_of (copy_sdcard_countdown model_t ?H 10 0
       (hw_of (copy_sdcard_banner ?H sim0)))) = [10, 9, 8, 7, 6, 5, 4, 3, 2, 1, 0]"
    by (simp add: sim_banner copy_sdcard_countdown.simps sim_tick_good bnd_def ret_def sim0_def
          counters_printed_def printf_def call_void_def)
  ultimately show ?thesis by simp
qed

subsection \<open>Failures during the copy\<close>

lemma fail_stop_ret: "fail_stop c (ret x)"
  by (simp add: fail_stop_def ret_def)

lemma fail_stop_fetch: "fail_stop c (fetch g)"
  by (simp add: fail_stop_def fetch_def)

lemma fail_stop_ensure_call:
  assumes "\<And>r. copy_failed c (ev r) \<longleftrightarrow> r \<noteq> sectrue c" and "\<And>r. ev r \<noteq> E_fatal_error None"
  shows "fail_stop c (ensure c (call f ev) None)"
  unfolding fail_stop_def
proof
  fix h
  obtain r h1 where f: "f h = (r, h1)" by (cases "f h")
  show "case outcome_of (ensure c (call f ev) None h) of
          Ret x \<Rightarrow> list_all (clean c) (events_of (ensure c (call f ev) None h))
        | Fatal \<Rightarrow> \<exists>pre e. events_of (ensure c (call f ev) None h) = pre @ [e, E_fatal_error None] \<and>
                   copy_failed c e \<and> list_all (clean c) pre"
  proof (cases "r = sectrue c")
    case True
    with f assms show ?thesis by (simp add: run_defs clean_def)
  next
    case False
    with f assms have ev: "events_of (ensure c (call f ev) None h) = [] @ [ev r, E_fatal_error None]"
      and out: "outcome_of (ensure c (call f ev) None h) = Fatal" and failed: "copy_failed c (ev r)"
      by (simp_all add: run_defs)
    have "\<exists>pre e. events_of (ensure c (call f ev) None h) = pre @ [e, E_fatal_error None] \<and>
                   copy_failed c e \<and> list_all (clean c) pre"
      by (rule exI[of _ "[]"], rule exI[of _ "ev r"]) (use ev failed in simp)
    with out show ?thesis by simp
  qed
qed

lemma fail_stop_bnd:
  assumes "fail_stop c m" and "\<And>x. fail_stop c (f x)"
  shows "fail_stop c (bnd m f)"
  unfolding fail_stop_def
proof
  fix h
  obtain r h1 es1 where m: "m h = (r, h1, es1)" by (cases "m h")
  show "case outcome_of (bnd m f h) of
          Ret x \<Rightarrow> list_all (clean c) (events_of (bnd m f h))
        | Fatal \<Rightarrow> \<exists>pre e. events_of (bnd m f h) = pre @ [e, E_fatal_error None] \<and>
                   copy_failed c e \<and> list_all (clean c) pre"
  proof (cases r)
    case Fatal
    with assms(1) m show ?thesis
      by (auto simp: fail_stop_def bnd_def dest!: spec[of _ h])
  next
    case (Ret x)
    with assms(1) m have es1: "list_all (clean c) es1"
      by (auto simp: fail_stop_def dest!: spec[of _ h])
    obtain r2 h2 es2 where f: "f x h1 = (r2, h2, es2)" by (cases "f x h1")
    have run: "bnd m f h = (r2, h2, es1 @ es2)"
      using m Ret f by (simp add: bnd_def)
    show ?thesis
    proof (cases r2)
      case (Ret y)
      with assms(2)[of x] f have "list_all (clean c) es2"
        by (auto simp: fail_stop_def dest!: spec[of _ h1])
      with es1 Ret run show ?thesis by simp
    next
      case Fatal
      with assms(2)[of x] f obtain pre e where "es2 = pre @ [e, E_fatal_error None]"
        and "copy_failed c e" and "list_all (clean c) pre"
        by (auto simp: fail_stop_def dest!: spec[of _ h1])
      with es1 have "es1 @ es2 = (es1 @ pre) @ [e, E_fatal_error None]"
        and "list_all (clean c) (es1 @ pre)" by simp_all
      with Fatal run \<open>copy_failed c e\<close> show ?thesis
        by (auto simp del: append_assoc)
    qed
  qed
qed

lemma fail_stop_if:
  "(b \<Longrightarrow> fail_stop c m) \<Longrightarrow> (\<not> b \<Longrightarrow> fail_stop c n) \<Longrightarrow> fail_stop c (if b then m else n)"
  by simp

lemma copy_sdcard_words_fail_stop: "fail_stop c (copy_sdcard_words c hal i j)"
proof (induction c hal i j rule: copy_sdcard_words.induct)
  case (1 c hal i j)
  show ?case
    by (subst copy_sdcard_words.simps)
       (intro fail_stop_if fail_stop_bnd fail_stop_fetch fail_stop_ret fail_stop_ensure_call "1.IH";
        simp add: copy_failed_def)
qed

lemma copy_sdcard_blocks_fail_stop: "fail_stop c (copy_sdcard_blocks c hal clen i)"
proof (induction c hal clen i rule: copy_sdcard_blocks.induct)
  case (1 c hal clen i)
  show ?case
    by (subst copy_sdcard_blocks.simps)
       (intro fail_stop_if fail_stop_bnd fail_stop_ret fail_stop_ensure_call
          copy_sdcard_words_fail_stop "1.IH";
        simp add: copy_failed_def)
qed

lemma bnd_run:
  "bnd m f h =
     (case outcome_of (m h) of
        Fatal \<Rightarrow> (Fatal, hw_of (m h), events_of (m h))
      | Ret x \<Rightarrow> (outcome_of (f x (hw_of (m h))), hw_of (f x (hw_of (m h))),
                  events_of (m h) @ events_of (f x (hw_of (m h)))))"
  by (cases "m h") (auto simp: bnd_def split: outcome.splits prod.splits)

text \<open>
  C4, as the code has it. When a block read or a word write of the write sequence fails,
  the run ends in the fatal halt at once: the failed call is the last call before the
  halt, and \<^verbatim>\<open>flash_lock_write\<close> is called nowhere in the run. The lock step is
  reached only after every block read and every word write has succeeded.
\<close>

theorem copy_sdcard_write_halts_unlocked:
  assumes "e \<in> set (events_of (copy_sdcard_write c hal clen h))" and "copy_failed c e"
  shows "outcome_of (copy_sdcard_write c hal clen h) = Fatal \<and>
         (\<exists>pre. events_of (copy_sdcard_write c hal clen h) = pre @ [e, E_fatal_error None]) \<and>
         filter is_flash_lock (events_of (copy_sdcard_write c hal clen h)) = []"
proof -
  let ?b = "copy_sdcard_begin c hal h"
  let ?l = "copy_sdcard_blocks c hal clen 0 (hw_of ?b)"
  let ?f = "copy_sdcard_finish c hal (hw_of ?l)"
  have b: "list_all (\<lambda>e. \<not> copy_failed c e \<and> \<not> is_flash_lock e) (events_of ?b)"
    using onlyD[OF copy_sdcard_begin_only, of c hal h] by (simp add: list_all_iff)
  have l: "list_all (\<lambda>e. \<not> is_flash_lock e) (events_of ?l)"
    using onlyD[OF copy_sdcard_blocks_only, of c hal clen 0 "hw_of ?b"]
    by (auto simp: list_all_iff dest: copy_event_no_lock)
  have f: "list_all (\<lambda>e. \<not> copy_failed c e) (events_of ?f)"
    using onlyD[OF copy_sdcard_finish_only, of c hal "hw_of ?l"] by (simp add: list_all_iff)
  have fs: "case outcome_of ?l of
        Ret x \<Rightarrow> list_all (clean c) (events_of ?l)
      | Fatal \<Rightarrow> (\<exists>pre e. events_of ?l = pre @ [e, E_fatal_error None] \<and>
                   copy_failed c e \<and> list_all (clean c) pre)"
    using copy_sdcard_blocks_fail_stop[of c hal clen 0] by (simp add: fail_stop_def)
  show ?thesis
  proof (cases "outcome_of ?b")
    case Fatal
    then have "events_of (copy_sdcard_write c hal clen h) = events_of ?b"
      by (simp add: copy_sdcard_write_def bnd_run)
    with assms b show ?thesis by (auto simp: list_all_iff)
  next
    case begun: (Ret u)
    show ?thesis
    proof (cases "outcome_of ?l")
      case (Ret v)
      with begun have "events_of (copy_sdcard_write c hal clen h)
          = events_of ?b @ events_of ?l @ events_of ?f"
        by (simp add: copy_sdcard_write_def bnd_run)
      moreover from fs Ret have "list_all (clean c) (events_of ?l)" by simp
      ultimately show ?thesis
        using assms b f by (auto simp: list_all_iff clean_def)
    next
      case Fatal
      with begun have run: "events_of (copy_sdcard_write c hal clen h) = events_of ?b @ events_of ?l"
        and out: "outcome_of (copy_sdcard_write c hal clen h) = Fatal"
        by (simp_all add: copy_sdcard_write_def bnd_run)
      from fs Fatal obtain pre e' where l': "events_of ?l = pre @ [e', E_fatal_error None]"
        and "copy_failed c e'" and pre: "list_all (clean c) pre"
        by auto
      from assms b run l' pre have "e = e'"
        by (auto simp: list_all_iff clean_def copy_failed_def)
      with run l' have "events_of (copy_sdcard_write c hal clen h)
          = (events_of ?b @ pre) @ [e, E_fatal_error None]"
        by simp
      then have "\<exists>pre. events_of (copy_sdcard_write c hal clen h) = pre @ [e, E_fatal_error None]"
        by blast
      moreover have "filter is_flash_lock (events_of (copy_sdcard_write c hal clen h)) = []"
        using b l run by (auto simp: filter_empty_conv list_all_iff)
      ultimately show ?thesis using out by simp
    qed
  qed
qed

lemma sim_begin:
  "sim_delays h < sc_card_present_for s \<Longrightarrow>
   copy_sdcard_begin model_t (sim_hal model_t s) h =
     (Ret (), h\<lparr>sim_unlocked := True\<rparr>,
      [E_flash_unlock_write (sectrue model_t),
       E_display_printf ''copying new bootloader from SD card\<newline>\<newline>'' [],
       E_sdcard_power_on (sectrue model_t),
       E_memzero 512])"
  by (simp add: copy_sdcard_begin_def run_defs verdict_def model_t_def)

lemma sim_blocks_bad_flash:
  "copy_sdcard_blocks model_t (sim_hal model_t bad_flash) 1100 0 h =
     (Fatal, h, [E_sdcard_read_blocks 0 1 (sectrue model_t),
                 E_flash_write_word 5 0 0 (secfalse model_t),
                 E_fatal_error None])"
  by (subst copy_sdcard_blocks.simps, subst copy_sdcard_words.simps)
     (simp add: run_defs sim_defs bad_flash_def)

theorem copy_sdcard_write_halts_unlocked_witness:
  "E_flash_write_word 5 0 0 (secfalse model_t)
     \<in> set (events_of (copy_sdcard_write model_t (sim_hal model_t bad_flash) 1100 sim0)) \<and>
   copy_failed model_t (E_flash_write_word 5 0 0 (secfalse model_t)) \<and>
   outcome_of (copy_sdcard_write model_t (sim_hal model_t bad_flash) 1100 sim0) = Fatal \<and>
   events_of (copy_sdcard_write model_t (sim_hal model_t bad_flash) 1100 sim0) =
     [E_flash_unlock_write (sectrue model_t),
      E_display_printf ''copying new bootloader from SD card\<newline>\<newline>'' [],
      E_sdcard_power_on (sectrue model_t),
      E_memzero 512,
      E_sdcard_read_blocks 0 1 (sectrue model_t)]
     @ [E_flash_write_word 5 0 0 (secfalse model_t), E_fatal_error None] \<and>
   filter is_flash_lock (events_of (copy_sdcard_write model_t (sim_hal model_t bad_flash) 1100 sim0)) = []"
proof -
  have run: "copy_sdcard_write model_t (sim_hal model_t bad_flash) 1100 sim0 =
    (Fatal, sim0\<lparr>sim_unlocked := True\<rparr>,
     [E_flash_unlock_write (sectrue model_t),
      E_display_printf ''copying new bootloader from SD card\<newline>\<newline>'' [],
      E_sdcard_power_on (sectrue model_t),
      E_memzero 512,
      E_sdcard_read_blocks 0 1 (sectrue model_t),
      E_flash_write_word 5 0 0 (secfalse model_t), E_fatal_error None])"
  proof -
    have "sim_delays sim0 < sc_card_present_for bad_flash"
      by (simp add: sim_defs bad_flash_def)
    from sim_begin[OF this] show ?thesis
      by (simp add: copy_sdcard_write_def bnd_def sim_blocks_bad_flash)
  qed
  have failed: "copy_failed model_t (E_flash_write_word 5 0 0 (secfalse model_t))"
    by (simp add: copy_failed_def model_t_def)
  from copy_sdcard_write_halts_unlocked
         [of "E_flash_write_word 5 0 0 (secfalse model_t)" model_t "sim_hal model_t bad_flash" 1100 sim0]
       failed run
  show ?thesis by simp
qed

lemma sim_tick_bad_flash:
  "countdown_tick model_t (sim_hal model_t bad_flash) i h =
     (if Suc (sim_delays h) < 1000
      then (Ret 1100, h\<lparr>sim_delays := Suc (sim_delays h)\<rparr>,
            [E_display_printf ''%d '' [i], E_hal_delay 1000,
             E_sdcard_power_on (sectrue model_t), E_sdcard_get_capacity_in_bytes 0x40000000,
             E_memzero 0x400, E_sdcard_read_blocks 0 2 (sectrue model_t), E_sdcard_power_off,
             E_load_image_header Sdcard_buf (sectrue model_t) \<lparr>codelen = 1100\<rparr>])
      else (Ret 0, h\<lparr>sim_delays := Suc (sim_delays h)\<rparr>,
            [E_display_printf ''%d '' [i], E_hal_delay 1000, E_sdcard_power_on (secfalse model_t)]))"
  by (simp add: countdown_tick_def check_sdcard_def run_defs sim_defs bad_flash_def)

lemma sim_countdown_bad_flash:
  "outcome_of (copy_sdcard_countdown model_t (sim_hal model_t bad_flash) 10 0 sim0) = Ret (Inr 1100) \<and>
   hw_of (copy_sdcard_countdown model_t (sim_hal model_t bad_flash) 10 0 sim0) = sim0\<lparr>sim_delays := 11\<rparr>"
  by (simp add: copy_sdcard_countdown.simps sim_tick_bad_flash bnd_def ret_def sim0_def)

lemma sim_write_bad_flash:
  assumes "sim_delays h < 1000"
  shows "copy_sdcard_write model_t (sim_hal model_t bad_flash) 1100 h =
    (Fatal, h\<lparr>sim_unlocked := True\<rparr>,
     [E_flash_unlock_write (sectrue model_t),
      E_display_printf ''copying new bootloader from SD card\<newline>\<newline>'' [],
      E_sdcard_power_on (sectrue model_t),
      E_memzero 512,
      E_sdcard_read_blocks 0 1 (sectrue model_t),
      E_flash_write_word 5 0 0 (secfalse model_t), E_fatal_error None])"
proof -
  from assms have "sim_delays h < sc_card_present_for bad_flash"
    by (simp add: sim_defs bad_flash_def)
  from sim_begin[OF this] show ?thesis
    by (simp add: copy_sdcard_write_def bnd_def sim_blocks_bad_flash)
qed

lemma sim_erase_bad_flash:
  assumes "sim_delays h < 1000"
  shows "copy_sdcard_erase model_t (sim_hal model_t bad_flash) 1100 h =
    (Fatal, h\<lparr>sim_erased := sim_erased h @ copy_sdcard_sectors model_t, sim_unlocked := True\<rparr>,
     [E_display_printf ''\<newline>\<newline>erasing flash:\<newline>\<newline>'' [],
      E_flash_erase_sectors (copy_sdcard_sectors model_t) 21 True (sectrue model_t),
      E_display_printf '' done\<newline>\<newline>'' [],
      E_flash_unlock_write (sectrue model_t),
      E_display_printf ''copying new bootloader from SD card\<newline>\<newline>'' [],
      E_sdcard_power_on (sectrue model_t),
      E_memzero 512,
      E_sdcard_read_blocks 0 1 (sectrue model_t),
      E_flash_write_word 5 0 0 (secfalse model_t), E_fatal_error None])"
proof -
  have len: "length (copy_sdcard_sectors model_t) = 21"
    by (simp add: copy_sdcard_sectors_def)
  have "sim_delays (h\<lparr>sim_erased := sim_erased h @ copy_sdcard_sectors model_t\<rparr>) < 1000"
    using assms by simp
  from sim_write_bad_flash[OF this] len show ?thesis
    by (simp add: copy_sdcard_erase_def bnd_def call_def call_void_def printf_def)
qed

text \<open>
  C4, as the claim states it, fails. On the simulated board whose first word write fails,
  \<^verbatim>\<open>copy_sdcard\<close> unlocks the flash, ends in the fatal halt after the failed write,
  and never calls \<^verbatim>\<open>flash_lock_write\<close>: the flash is still unlocked at the halt.
\<close>

theorem copy_sdcard_failed_write_not_locked:
  "outcome_of (copy_sdcard model_t (sim_hal model_t bad_flash) sim0) = Fatal \<and>
   E_flash_unlock_write (sectrue model_t)
     \<in> set (events_of (copy_sdcard model_t (sim_hal model_t bad_flash) sim0)) \<and>
   E_flash_write_word 5 0 0 (secfalse model_t)
     \<in> set (events_of (copy_sdcard model_t (sim_hal model_t bad_flash) sim0)) \<and>
   filter is_flash_lock (events_of (copy_sdcard model_t (sim_hal model_t bad_flash) sim0)) = [] \<and>
   sim_unlocked (hw_of (copy_sdcard model_t (sim_hal model_t bad_flash) sim0))"
proof -
  let ?H = "sim_hal model_t bad_flash"
  have cd: "outcome_of (copy_sdcard_countdown model_t ?H 10 0 sim0) = Ret (Inr 1100)"
    "hw_of (copy_sdcard_countdown model_t ?H 10 0 sim0) = sim0\<lparr>sim_delays := 11\<rparr>"
    using sim_countdown_bad_flash by simp_all
  from cd(1) have go: "outcome_of (copy_sdcard_countdown model_t ?H 10 0
      (hw_of (copy_sdcard_banner ?H sim0))) = Ret (Inr 1100)"
    by (simp add: sim_banner)
  have "sim_delays (sim0\<lparr>sim_delays := 11\<rparr>) < 1000" by simp
  note er = sim_erase_bad_flash[OF this]
  have nolock: "filter is_flash_lock (events_of (copy_sdcard_countdown model_t ?H 10 0 sim0)) = []"
    using onlyD[OF copy_sdcard_countdown_only, of model_t ?H 10 0 sim0]
    by (auto simp: filter_empty_conv list_all_iff countdown_event_def is_flash_lock_def
          split: event.splits)
  show ?thesis
    using nolock
    by (simp add: copy_sdcard_continued[OF go] sim_banner cd(2) er is_flash_lock_def)
qed

subsection \<open>The boot decision\<close>

lemma main_boot_cases:
  obtains
    (bad_header) r hdr h1 where "r \<noteq> sectrue c"
      and "main_boot c hal h =
        (Fatal, h1, [E_load_image_header (Flash_addr (BOOTLOADER_START c)) r hdr,
                     E_fatal_error (Some ''invalid bootloader header'')])"
  | (bad_hash) r hdr h1 where "r \<noteq> sectrue c"
      and "main_boot c hal h =
        (Fatal, h1, [E_load_image_header (Flash_addr (BOOTLOADER_START c)) (sectrue c) hdr,
                     E_check_image_contents hdr (IMAGE_HEADER_SIZE c) [FLASH_SECTOR_BOOTLOADER c] r,
                     E_fatal_error (Some ''invalid bootloader hash'')])"
  | (jumped) hdr h1 where
      "main_boot c hal h =
        (Ret 0, h1, [E_load_image_header (Flash_addr (BOOTLOADER_START c)) (sectrue c) hdr,
                     E_check_image_contents hdr (IMAGE_HEADER_SIZE c) [FLASH_SECTOR_BOOTLOADER c]
                       (sectrue c)]
                    @ (if TREZOR_MODEL_T c then [E_display_set_big_endian] else [])
                    @ [E_jump_to (BOOTLOADER_START c + IMAGE_HEADER_SIZE c)])"
proof -
  obtain r1 hdr h1 where ld: "load_image_header hal (Flash_addr (BOOTLOADER_START c))
      (BOOTLOADER_IMAGE_MAGIC c) (BOOTLOADER_IMAGE_MAXSIZE c) BOARDLOADER_KEY_M BOARDLOADER_KEY_N
      (BOARDLOADER_KEYS c) h = ((r1, hdr), h1)"
    by (cases "load_image_header hal (Flash_addr (BOOTLOADER_START c))
      (BOOTLOADER_IMAGE_MAGIC c) (BOOTLOADER_IMAGE_MAXSIZE c) BOARDLOADER_KEY_M BOARDLOADER_KEY_N
      (BOARDLOADER_KEYS c) h") auto
  obtain r2 h2 where ck: "check_image_contents hal hdr (IMAGE_HEADER_SIZE c)
      [FLASH_SECTOR_BOOTLOADER c] 1 h1 = (r2, h2)"
    by (cases "check_image_contents hal hdr (IMAGE_HEADER_SIZE c) [FLASH_SECTOR_BOOTLOADER c] 1 h1")
  show thesis
  proof (cases "r1 = sectrue c")
    case False
    with ld show thesis
      by (intro bad_header[of r1 h1 hdr]) (simp_all add: main_boot_def run_defs)
  next
    case header: True
    show thesis
    proof (cases "r2 = sectrue c")
      case False
      with ld ck header show thesis
        by (intro bad_hash[of r2 h2 hdr]) (simp_all add: main_boot_def run_defs)
    next
      case True
      with ld ck header show thesis
        by (intro jumped[of "jump_to hal (BOOTLOADER_START c + IMAGE_HEADER_SIZE c)
               (if TREZOR_MODEL_T c then display_set_big_endian hal h2 else h2)" hdr])
           (simp_all add: main_boot_def set_bld_compatible_settings_def run_defs)
    qed
  qed
qed

lemma main_sdcard_only: "only (sdcard_block_event c) (main_sdcard c hal)"
proof -
  have "only (sdcard_block_event c) (check_sdcard c hal)"
    by (rule only_mono[OF check_sdcard_only])
       (simp add: sdcard_block_event_def countdown_event_recovery)
  moreover have "only (sdcard_block_event c) (copy_sdcard c hal)"
    by (rule only_mono[OF copy_sdcard_only]) (simp add: sdcard_block_event_def)
  ultimately show ?thesis
    unfolding main_sdcard_def
    by (intro only_intros; simp add: sdcard_block_event_def)
qed

lemma main_sdcard_status:
  "outcome_of (main_sdcard c hal h) \<in> {Fatal, Ret None, Ret (Some 0), Ret (Some 3)}"
  by (simp add: main_sdcard_def bnd_run ret_def call_void_def split: outcome.splits)

lemma sdcard_block_event_simps [simp]:
  "\<not> sdcard_block_event c (E_jump_to a)"
  "\<not> sdcard_block_event c (E_load_image_header (Flash_addr a) r hdr)"
  "\<not> sdcard_block_event c (E_check_image_contents hdr skip ss r)"
  "\<not> sdcard_block_event c (E_flash_configure_option_bytes r)"
  by (simp_all add: sdcard_block_event_def recovery_event_def countdown_event_def)

lemma main_cases:
  obtains
    (misconfigured) r r' h1 where "r \<noteq> sectrue c"
      and "main c hal h =
        (Ret 2, h1, [E_reset_flags_reset, E_periph_init, E_flash_configure_option_bytes r,
                     E_flash_erase_sectors (STORAGE_SECTORS c) (STORAGE_SECTORS_COUNT c) False r'])"
  | (sdcard_halt) h1 es where "list_all (sdcard_block_event c) es"
      and "main c hal h = (Fatal, h1, main_prelude c @ es)"
  | (sdcard_done) status h1 es where "status = 0 \<or> status = 3"
      and "list_all (sdcard_block_event c) es"
      and "main c hal h = (Ret status, h1, main_prelude c @ es)"
  | (boot) h1 es where "list_all (sdcard_block_event c) es"
      and "main c hal h =
        (outcome_of (main_boot c hal h1), hw_of (main_boot c hal h1),
         main_prelude c @ es @ events_of (main_boot c hal h1))"
proof -
  obtain r h1 where cf: "flash_configure_option_bytes hal (periph_init hal (reset_flags_reset hal h))
      = (r, h1)"
    by (cases "flash_configure_option_bytes hal (periph_init hal (reset_flags_reset hal h))")
  show thesis
  proof (cases "r = sectrue c")
    case False
    obtain r' h2 where "flash_erase_sectors hal (STORAGE_SECTORS c) (STORAGE_SECTORS_COUNT c) None h1
        = (r', h2)"
      by (cases "flash_erase_sectors hal (STORAGE_SECTORS c) (STORAGE_SECTORS_COUNT c) None h1")
    with cf False show thesis
      by (intro misconfigured[of r h2 r']) (simp_all add: main_def run_defs)
  next
    case True
    let ?h2 = "display_clear hal (display_init hal (clear_otg_hs_memory hal h1))"
    obtain q h3 es where sd: "main_sdcard c hal ?h2 = (q, h3, es)"
      by (cases "main_sdcard c hal ?h2")
    from onlyD[OF main_sdcard_only, of c hal ?h2] sd have es: "list_all (sdcard_block_event c) es"
      by simp
    from main_sdcard_status[of c hal ?h2] sd
    consider "q = Fatal" | "q = Ret None" | "q = Ret (Some 0)" | "q = Ret (Some 3)"
      by auto
    then show thesis
    proof cases
      case 1
      with cf True sd es show thesis
        by (intro sdcard_halt[of es h3]) (simp_all add: main_def run_defs main_prelude_def)
    next
      case 2
      with cf True sd es show thesis
        by (intro boot[of es h3])
           (simp_all add: main_def run_defs main_prelude_def split: prod.splits)
    next
      case 3
      with cf True sd es show thesis
        by (intro sdcard_done[of 0 es h3]) (simp_all add: main_def run_defs main_prelude_def)
    next
      case 4
      with cf True sd es show thesis
        by (intro sdcard_done[of 3 es h3]) (simp_all add: main_def run_defs main_prelude_def)
    qed
  qed
qed

lemma is_jump_simps [simp]:
  "is_jump (E_jump_to a)"
  "\<not> is_jump (E_load_image_header p r hdr)"
  "\<not> is_jump (E_check_image_contents hdr skip ss r)"
  "\<not> is_jump E_display_set_big_endian"
  "\<not> is_jump (E_fatal_error msg)"
  by (simp_all add: is_jump_def)

lemma main_prelude_no_jump [simp]: "filter is_jump (main_prelude c) = []"
  by (simp add: main_prelude_def is_jump_def)


text \<open>
  C1. In every run of \<^verbatim>\<open>main\<close>, \<^verbatim>\<open>jump_to\<close> is called if and only if
  \<^verbatim>\<open>load_image_header\<close> on the bootloader region of the flash returned \<open>sectrue\<close> and
  \<^verbatim>\<open>check_image_contents\<close>, on the header it loaded and on the bootloader sector,
  returned \<open>sectrue\<close>. In particular no run jumps after the header check alone.
\<close>

theorem main_handoff_iff_verified:
  "(\<exists>a. E_jump_to a \<in> set (events_of (main c hal h))) \<longleftrightarrow>
   (\<exists>hdr. E_load_image_header (Flash_addr (BOOTLOADER_START c)) (sectrue c) hdr
            \<in> set (events_of (main c hal h)) \<and>
          E_check_image_contents hdr (IMAGE_HEADER_SIZE c) [FLASH_SECTOR_BOOTLOADER c] (sectrue c)
            \<in> set (events_of (main c hal h)))"
proof (cases rule: main_cases[where c=c and hal=hal and h=h])
  case (misconfigured r r' h1)
  then show ?thesis by simp
next
  case (sdcard_halt h1 es)
  then show ?thesis by (auto simp: main_prelude_def list_all_iff)
next
  case (sdcard_done status h1 es)
  then show ?thesis by (auto simp: main_prelude_def list_all_iff)
next
  case (boot h1 es)
  then have es: "\<forall>e\<in>set es. sdcard_block_event c e"
    by (simp add: list_all_iff)
  show ?thesis
  proof (cases rule: main_boot_cases[where c=c and hal=hal and h=h1])
    case (bad_header r hdr h2)
    with boot(2) es show ?thesis by (auto simp: main_prelude_def)
  next
    case (bad_hash r hdr h2)
    with boot(2) es show ?thesis by (auto simp: main_prelude_def)
  next
    case (jumped hdr h2)
    with boot(2) show ?thesis by auto
  qed
qed


text \<open>
  C7. When \<^verbatim>\<open>flash_configure_option_bytes\<close> does not return \<open>sectrue\<close>, \<^verbatim>\<open>main\<close>
  erases \<open>STORAGE_SECTORS\<close>, whatever the erase returns, and returns 2 without any
  further call. When it does return \<open>sectrue\<close>, \<^verbatim>\<open>main\<close> returns 0 or 3 or ends in the
  fatal halt: 2 is the status of this failure alone.
\<close>

theorem main_option_bytes_failure:
  "(E_flash_configure_option_bytes r \<in> set (events_of (main c hal h)) \<and> r \<noteq> sectrue c \<longrightarrow>
      outcome_of (main c hal h) = Ret 2 \<and>
      (\<exists>r'. events_of (main c hal h) =
         [E_reset_flags_reset, E_periph_init, E_flash_configure_option_bytes r,
          E_flash_erase_sectors (STORAGE_SECTORS c) (STORAGE_SECTORS_COUNT c) False r'])) \<and>
   (E_flash_configure_option_bytes (sectrue c) \<in> set (events_of (main c hal h)) \<longrightarrow>
      outcome_of (main c hal h) \<in> {Ret 0, Ret 3, Fatal})"
proof (cases rule: main_cases[where c=c and hal=hal and h=h])
  case (misconfigured r r' h1)
  then show ?thesis by auto
next
  case (sdcard_halt h1 es)
  then show ?thesis by (auto simp: main_prelude_def list_all_iff)
next
  case (sdcard_done status h1 es)
  then show ?thesis by (auto simp: main_prelude_def list_all_iff)
next
  case (boot h1 es)
  then have es: "\<forall>e\<in>set es. sdcard_block_event c e"
    by (simp add: list_all_iff)
  show ?thesis
  proof (cases rule: main_boot_cases[where c=c and hal=hal and h=h1])
    case (bad_header r hdr h2)
    with boot(2) es show ?thesis by (auto simp: main_prelude_def)
  next
    case (bad_hash r hdr h2)
    with boot(2) es show ?thesis by (auto simp: main_prelude_def)
  next
    case (jumped hdr h2)
    with boot(2) es show ?thesis by (auto simp: main_prelude_def)
  qed
qed

lemmas main_defs = main_def main_sdcard_def main_boot_def check_sdcard_def
  set_bld_compatible_settings_def

lemma sim_main_no_card:
  "main model_t (sim_hal model_t no_card) sim0 =
     (Ret 0, sim0,
      [E_reset_flags_reset, E_periph_init, E_flash_configure_option_bytes (sectrue model_t),
       E_clear_otg_hs_memory, E_display_init, E_display_clear, E_sdcard_init,
       E_sdcard_power_on (secfalse model_t),
       E_load_image_header (Flash_addr 0x08020000) (sectrue model_t) \<lparr>codelen = 0x10000\<rparr>,
       E_check_image_contents \<lparr>codelen = 0x10000\<rparr> 0x400 [5] (sectrue model_t),
       E_display_set_big_endian,
       E_jump_to 0x08020400])"
  by (simp add: main_defs run_defs sim_defs)

lemma sim_main_bad_option_bytes:
  "main model_t (sim_hal model_t bad_option_bytes) sim0 =
     (Ret 2, sim0\<lparr>sim_erased := [4, 16]\<rparr>,
      [E_reset_flags_reset, E_periph_init, E_flash_configure_option_bytes (secfalse model_t),
       E_flash_erase_sectors [4, 16] 2 False (sectrue model_t)])"
  by (simp add: main_defs run_defs sim_defs bad_option_bytes_def)

lemma model_t_simps [simp]:
  "BOOTLOADER_START model_t = 0x08020000"
  "IMAGE_HEADER_SIZE model_t = 0x400"
  "FLASH_SECTOR_BOOTLOADER model_t = 5"
  "STORAGE_SECTORS model_t = [4, 16]"
  "STORAGE_SECTORS_COUNT model_t = 2"
  "sectrue model_t \<noteq> secfalse model_t"
  "secfalse model_t \<noteq> sectrue model_t"
  by (simp_all add: model_t_def)

theorem main_handoff_iff_verified_witness:
  "E_jump_to 0x08020400 \<in> set (events_of (main model_t (sim_hal model_t no_card) sim0)) \<and>
   E_load_image_header (Flash_addr 0x08020000) (sectrue model_t) \<lparr>codelen = 0x10000\<rparr>
     \<in> set (events_of (main model_t (sim_hal model_t no_card) sim0)) \<and>
   E_check_image_contents \<lparr>codelen = 0x10000\<rparr> 0x400 [5] (sectrue model_t)
     \<in> set (events_of (main model_t (sim_hal model_t no_card) sim0))"
  using main_handoff_iff_verified[of model_t "sim_hal model_t no_card" sim0]
  by (simp add: sim_main_no_card)


theorem main_option_bytes_failure_witness:
  "E_flash_configure_option_bytes (secfalse model_t)
     \<in> set (events_of (main model_t (sim_hal model_t bad_option_bytes) sim0)) \<and>
   secfalse model_t \<noteq> sectrue model_t \<and>
   outcome_of (main model_t (sim_hal model_t bad_option_bytes) sim0) = Ret 2 \<and>
   events_of (main model_t (sim_hal model_t bad_option_bytes) sim0) =
     [E_reset_flags_reset, E_periph_init, E_flash_configure_option_bytes (secfalse model_t),
      E_flash_erase_sectors [4, 16] 2 False (sectrue model_t)] \<and>
   E_flash_configure_option_bytes (sectrue model_t)
     \<in> set (events_of (main model_t (sim_hal model_t no_card) sim0)) \<and>
   outcome_of (main model_t (sim_hal model_t no_card) sim0) = Ret 0"
  using main_option_bytes_failure[of "secfalse model_t" model_t "sim_hal model_t bad_option_bytes" sim0]
    main_option_bytes_failure[of "secfalse model_t" model_t "sim_hal model_t no_card" sim0]
  by (simp add: sim_main_no_card sim_main_bad_option_bytes)

subsection \<open>The copy loops\<close>

lemma offset_unat:
  fixes bs :: "32 word"
  assumes "i * unat bs + j * 4 < 2 ^ 32"
  shows "unat (of_nat i * bs + of_nat j * 4 :: 32 word) = i * unat bs + j * 4"
proof -
  have "unat (of_nat i * bs + of_nat j * 4 :: 32 word) = (i * unat bs + j * 4) mod 2 ^ 32"
    by (simp add: unat_word_ariths unat_of_nat mod_simps)
  with assms show ?thesis by simp
qed

lemma offset_within_blocks:
  fixes bs total :: "32 word"
  assumes "i < unat (total div bs)" and "j < unat (bs div 4)"
  shows "unat (of_nat i * bs + of_nat j * 4 :: 32 word) + 4 \<le> unat (total div bs) * unat bs"
    and "unat (total div bs) * unat bs \<le> unat total"
proof -
  have n: "unat (total div bs) = unat total div unat bs" by (simp add: unat_div)
  have w: "unat (bs div 4) = unat bs div 4" by (simp add: unat_div)
  show le: "unat (total div bs) * unat bs \<le> unat total" by (simp add: n)
  from assms(2) w have j: "j * 4 + 4 \<le> unat bs" by simp
  from assms(1) have "Suc i \<le> unat (total div bs)" by simp
  then have "Suc i * unat bs \<le> unat (total div bs) * unat bs" by (rule mult_le_mono1)
  with j have bound: "i * unat bs + j * 4 + 4 \<le> unat (total div bs) * unat bs" by simp
  have "unat total < 2 ^ 32" using unsigned_less[of total, where 'a = nat] by simp
  with bound le have "i * unat bs + j * 4 < 2 ^ 32" by simp
  from offset_unat[OF this] bound
  show "unat (of_nat i * bs + of_nat j * 4 :: 32 word) + 4 \<le> unat (total div bs) * unat bs"
    by simp
qed

lemma blocks_read_simps [simp]:
  "blocks_read [] = []"
  "blocks_read (E_sdcard_read_blocks b n r # es) = b # blocks_read es"
  "blocks_read (E_flash_write_word s off v r # es) = blocks_read es"
  "blocks_read (E_fatal_error msg # es) = blocks_read es"
  "blocks_read (xs @ ys) = blocks_read xs @ blocks_read ys"
  by (simp_all add: blocks_read_def)

lemma offsets_written_simps [simp]:
  "offsets_written [] = []"
  "offsets_written (E_flash_write_word s off v r # es) = off # offsets_written es"
  "offsets_written (E_sdcard_read_blocks b n r # es) = offsets_written es"
  "offsets_written (E_fatal_error msg # es) = offsets_written es"
  "offsets_written (xs @ ys) = offsets_written xs @ offsets_written ys"
  by (simp_all add: offsets_written_def)

lemma copy_sdcard_words_end:
  "\<not> j < unat (SDCARD_BLOCK_SIZE c div 4) \<Longrightarrow> copy_sdcard_words c hal i j h = (Ret (), h, [])"
  by (subst copy_sdcard_words.simps) (simp add: ret_def)

lemma copy_sdcard_words_step:
  assumes "j < unat (SDCARD_BLOCK_SIZE c div 4)"
  shows "copy_sdcard_words c hal i j h =
    (let off = of_nat i * SDCARD_BLOCK_SIZE c + of_nat j * 4;
         w = flash_write_word hal (FLASH_SECTOR_BOOTLOADER c) off (sdcard_buf hal h j) h;
         e = E_flash_write_word (FLASH_SECTOR_BOOTLOADER c) off (sdcard_buf hal h j) (fst w)
     in if fst w = sectrue c
        then (outcome_of (copy_sdcard_words c hal i (j + 1) (snd w)),
              hw_of (copy_sdcard_words c hal i (j + 1) (snd w)),
              e # events_of (copy_sdcard_words c hal i (j + 1) (snd w)))
        else (Fatal, snd w, [e, E_fatal_error None]))"
  using assms
  by (subst copy_sdcard_words.simps)
     (simp add: bnd_run ensure_def call_def ret_def fetch_def fatal_error_def Let_def
        split: prod.splits)

lemma copy_sdcard_words_offsets:
  "blocks_read (events_of (copy_sdcard_words c hal i j h)) = [] \<and>
   (\<forall>off \<in> set (offsets_written (events_of (copy_sdcard_words c hal i j h))).
      \<exists>j'. j' < unat (SDCARD_BLOCK_SIZE c div 4) \<and>
           off = of_nat i * SDCARD_BLOCK_SIZE c + of_nat j' * 4) \<and>
   (outcome_of (copy_sdcard_words c hal i j h) = Ret () \<longrightarrow>
      offsets_written (events_of (copy_sdcard_words c hal i j h)) =
        map (\<lambda>j'. of_nat i * SDCARD_BLOCK_SIZE c + of_nat j' * 4)
          [j..<unat (SDCARD_BLOCK_SIZE c div 4)])"
proof (induction c hal i j arbitrary: h rule: copy_sdcard_words.induct)
  case (1 c hal i j)
  show ?case
  proof (cases "j < unat (SDCARD_BLOCK_SIZE c div 4)")
    case False
    then show ?thesis by (simp add: copy_sdcard_words_end)
  next
    case True
    note IH = "1.IH"[OF True]
    from True show ?thesis
      using IH
      by (simp add: copy_sdcard_words_step[OF True] Let_def upt_conv_Cons) blast
  qed
qed

lemma copy_sdcard_blocks_end:
  "\<not> i < unat ((IMAGE_HEADER_SIZE c + clen) div SDCARD_BLOCK_SIZE c) \<Longrightarrow>
   copy_sdcard_blocks c hal clen i h = (Ret (), h, [])"
  by (subst copy_sdcard_blocks.simps) (simp add: ret_def)

lemma copy_sdcard_blocks_step:
  assumes "i < unat ((IMAGE_HEADER_SIZE c + clen) div SDCARD_BLOCK_SIZE c)"
  shows "copy_sdcard_blocks c hal clen i h =
    (let r = sdcard_read_blocks hal (of_nat i) 1 h;
         e = E_sdcard_read_blocks (of_nat i) 1 (fst r);
         ws = copy_sdcard_words c hal i 0 (snd r);
         rest = copy_sdcard_blocks c hal clen (i + 1) (hw_of ws)
     in if fst r = sectrue c
        then (case outcome_of ws of
                Fatal \<Rightarrow> (Fatal, hw_of ws, e # events_of ws)
              | Ret u \<Rightarrow> (outcome_of rest, hw_of rest, e # events_of ws @ events_of rest))
        else (Fatal, snd r, [e, E_fatal_error None]))"
  using assms
  by (subst copy_sdcard_blocks.simps)
     (simp add: bnd_run ensure_def call_def ret_def fatal_error_def Let_def
        split: prod.splits outcome.splits)

lemma copy_sdcard_blocks_offsets:
  "(\<forall>off \<in> set (offsets_written (events_of (copy_sdcard_blocks c hal clen i h))).
      \<exists>i' j'. i' < unat ((IMAGE_HEADER_SIZE c + clen) div SDCARD_BLOCK_SIZE c) \<and>
           j' < unat (SDCARD_BLOCK_SIZE c div 4) \<and>
           off = of_nat i' * SDCARD_BLOCK_SIZE c + of_nat j' * 4) \<and>
   (outcome_of (copy_sdcard_blocks c hal clen i h) = Ret () \<longrightarrow>
      blocks_read (events_of (copy_sdcard_blocks c hal clen i h)) =
        map of_nat [i..<unat ((IMAGE_HEADER_SIZE c + clen) div SDCARD_BLOCK_SIZE c)] \<and>
      offsets_written (events_of (copy_sdcard_blocks c hal clen i h)) =
        concat (map (\<lambda>i'. map (\<lambda>j'. of_nat i' * SDCARD_BLOCK_SIZE c + of_nat j' * 4)
                              [0..<unat (SDCARD_BLOCK_SIZE c div 4)])
          [i..<unat ((IMAGE_HEADER_SIZE c + clen) div SDCARD_BLOCK_SIZE c)]))"
proof (induction c hal clen i arbitrary: h rule: copy_sdcard_blocks.induct)
  case (1 c hal clen i)
  show ?case
  proof (cases "i < unat ((IMAGE_HEADER_SIZE c + clen) div SDCARD_BLOCK_SIZE c)")
    case False
    then show ?thesis by (simp add: copy_sdcard_blocks_end)
  next
    case True
    note IH = "1.IH"[OF True]
    note ws = copy_sdcard_words_offsets[of c hal i 0 "snd (sdcard_read_blocks hal (of_nat i) 1 h)"]
    show ?thesis
    proof (cases "fst (sdcard_read_blocks hal (of_nat i) 1 h) = sectrue c")
      case False
      with True show ?thesis by (simp add: copy_sdcard_blocks_step[OF True] Let_def)
    next
      case read: True
      let ?N = "unat ((IMAGE_HEADER_SIZE c + clen) div SDCARD_BLOCK_SIZE c)"
      let ?W = "unat (SDCARD_BLOCK_SIZE c div 4)"
      let ?e = "E_sdcard_read_blocks (of_nat i) 1 (sectrue c)"
      let ?ws = "copy_sdcard_words c hal i 0 (snd (sdcard_read_blocks hal (of_nat i) 1 h))"
      let ?rest = "copy_sdcard_blocks c hal clen (i + 1) (hw_of ?ws)"
      from ws True have ws_bound: "\<forall>off \<in> set (offsets_written (events_of ?ws)).
          \<exists>i' j'. i' < ?N \<and> j' < ?W \<and> off = of_nat i' * SDCARD_BLOCK_SIZE c + of_nat j' * 4"
        by blast
      from ws have ws_read: "blocks_read (events_of ?ws) = []" by simp
      show ?thesis
      proof (cases "outcome_of ?ws")
        case Fatal
        with True read have "events_of (copy_sdcard_blocks c hal clen i h) = ?e # events_of ?ws"
          and "outcome_of (copy_sdcard_blocks c hal clen i h) = Fatal"
          by (simp_all add: copy_sdcard_blocks_step[OF True] Let_def)
        with ws_bound show ?thesis by simp
      next
        case (Ret u)
        with True read have ev: "events_of (copy_sdcard_blocks c hal clen i h)
            = ?e # events_of ?ws @ events_of ?rest"
          and out: "outcome_of (copy_sdcard_blocks c hal clen i h) = outcome_of ?rest"
          by (simp_all add: copy_sdcard_blocks_step[OF True] Let_def)
        from Ret ws have ws_all: "offsets_written (events_of ?ws) =
            map (\<lambda>j'. of_nat i * SDCARD_BLOCK_SIZE c + of_nat j' * 4) [0..<?W]"
          by simp
        have upt: "[i..<?N] = i # [i + 1..<?N]"
          using True by (simp add: upt_conv_Cons)
        from IH[of "hw_of ?ws"] have rest_bound:
          "\<forall>off \<in> set (offsets_written (events_of ?rest)).
             \<exists>i' j'. i' < ?N \<and> j' < ?W \<and> off = of_nat i' * SDCARD_BLOCK_SIZE c + of_nat j' * 4"
          and rest_all: "outcome_of ?rest = Ret () \<longrightarrow>
             blocks_read (events_of ?rest) = map of_nat [i + 1..<?N] \<and>
             offsets_written (events_of ?rest) =
               concat (map (\<lambda>i'. map (\<lambda>j'. of_nat i' * SDCARD_BLOCK_SIZE c + of_nat j' * 4) [0..<?W])
                 [i + 1..<?N])"
          by simp_all
        have "\<forall>off \<in> set (offsets_written (events_of (copy_sdcard_blocks c hal clen i h))).
             \<exists>i' j'. i' < ?N \<and> j' < ?W \<and> off = of_nat i' * SDCARD_BLOCK_SIZE c + of_nat j' * 4"
          using ws_bound rest_bound by (simp add: ev ball_Un)
        moreover have "outcome_of (copy_sdcard_blocks c hal clen i h) = Ret () \<longrightarrow>
             blocks_read (events_of (copy_sdcard_blocks c hal clen i h)) = map of_nat [i..<?N] \<and>
             offsets_written (events_of (copy_sdcard_blocks c hal clen i h)) =
               concat (map (\<lambda>i'. map (\<lambda>j'. of_nat i' * SDCARD_BLOCK_SIZE c + of_nat j' * 4) [0..<?W])
                 [i..<?N])"
          using rest_all ws_read ws_all unfolding out ev upt by simp
        ultimately show ?thesis by simp
      qed
    qed
  qed
qed

lemma copy_sdcard_words_copied:
  assumes "copy_frame hal"
    and "outcome_of (copy_sdcard_words c hal i j h) = Ret ()"
  shows "events_of (copy_sdcard_words c hal i j h) =
     map (\<lambda>j'. E_flash_write_word (FLASH_SECTOR_BOOTLOADER c)
                 (of_nat i * SDCARD_BLOCK_SIZE c + of_nat j' * 4) (sdcard_buf hal h j') (sectrue c))
       [j..<unat (SDCARD_BLOCK_SIZE c div 4)]"
  using assms
proof (induction c hal i j arbitrary: h rule: copy_sdcard_words.induct)
  case (1 c hal i j)
  show ?case
  proof (cases "j < unat (SDCARD_BLOCK_SIZE c div 4)")
    case False
    then show ?thesis by (simp add: copy_sdcard_words_end)
  next
    case True
    let ?off = "of_nat i * SDCARD_BLOCK_SIZE c + of_nat j * 4"
    let ?w = "flash_write_word hal (FLASH_SECTOR_BOOTLOADER c) ?off (sdcard_buf hal h j) h"
    from "1.prems"(2) have ok: "fst ?w = sectrue c"
      by (simp add: copy_sdcard_words_step[OF True] Let_def split: if_splits)
    with "1.prems"(2) have rest: "outcome_of (copy_sdcard_words c hal i (j + 1) (snd ?w)) = Ret ()"
      by (simp add: copy_sdcard_words_step[OF True] Let_def)
    from "1.prems"(1) have buf: "sdcard_buf hal (snd ?w) j' = sdcard_buf hal h j'" for j'
      by (simp add: copy_frame_def)
    have upt: "[j..<unat (SDCARD_BLOCK_SIZE c div 4)] = j # [j + 1..<unat (SDCARD_BLOCK_SIZE c div 4)]"
      using True by (simp add: upt_conv_Cons)
    from "1.IH"[OF True "1.prems"(1) rest] ok show ?thesis
      unfolding upt by (simp add: copy_sdcard_words_step[OF True] Let_def buf)
  qed
qed

lemma copy_sdcard_blocks_copied:
  assumes "copy_frame hal"
    and "outcome_of (copy_sdcard_blocks c hal clen i (block_begins c hal h i)) = Ret ()"
  shows "events_of (copy_sdcard_blocks c hal clen i (block_begins c hal h i)) =
     concat (map (\<lambda>i'. E_sdcard_read_blocks (of_nat i') 1 (sectrue c)
          # map (\<lambda>j. E_flash_write_word (FLASH_SECTOR_BOOTLOADER c)
                       (of_nat i' * SDCARD_BLOCK_SIZE c + of_nat j * 4)
                       (sdcard_buf hal (block_loaded c hal h i') j) (sectrue c))
              [0..<unat (SDCARD_BLOCK_SIZE c div 4)])
       [i..<unat ((IMAGE_HEADER_SIZE c + clen) div SDCARD_BLOCK_SIZE c)])"
  using assms
proof (induction c hal clen i rule: copy_sdcard_blocks.induct)
  case (1 c hal clen i)
  let ?N = "unat ((IMAGE_HEADER_SIZE c + clen) div SDCARD_BLOCK_SIZE c)"
  show ?case
  proof (cases "i < ?N")
    case False
    then show ?thesis by (simp add: copy_sdcard_blocks_end)
  next
    case True
    let ?B = "block_begins c hal h i"
    let ?r = "sdcard_read_blocks hal (of_nat i) 1 ?B"
    let ?ws = "copy_sdcard_words c hal i 0 (snd ?r)"
    let ?rest = "copy_sdcard_blocks c hal clen (i + 1) (hw_of ?ws)"
    note step = copy_sdcard_blocks_step[OF True, of hal ?B]
    from "1.prems"(2) have read: "fst ?r = sectrue c"
      by (simp add: step Let_def split: if_splits)
    with "1.prems"(2) have ws: "outcome_of ?ws = Ret ()"
      by (simp add: step Let_def split: outcome.splits)
    with read "1.prems"(2) have rest: "outcome_of ?rest = Ret ()"
      by (simp add: step Let_def)
    have nxt: "hw_of ?ws = block_begins c hal h (i + 1)" by simp
    from read ws have ev: "events_of (copy_sdcard_blocks c hal clen i ?B)
        = E_sdcard_read_blocks (of_nat i) 1 (sectrue c) # events_of ?ws @ events_of ?rest"
      by (simp add: step Let_def)
    have loaded: "snd ?r = block_loaded c hal h i" by (simp add: block_loaded_def)
    have upt: "[i..<?N] = i # [i + 1..<?N]"
      using True by (simp add: upt_conv_Cons)
    from rest have rest': "outcome_of (copy_sdcard_blocks c hal clen (i + 1)
        (block_begins c hal h (i + 1))) = Ret ()"
      unfolding nxt .
    note IH = "1.IH"[OF True "1.prems"(1) rest']
    note wsev = copy_sdcard_words_copied[OF "1.prems"(1) ws, unfolded loaded]
    have "events_of (copy_sdcard_blocks c hal clen i ?B)
        = E_sdcard_read_blocks (of_nat i) 1 (sectrue c)
          # events_of (copy_sdcard_words c hal i 0 (block_loaded c hal h i))
          @ events_of (copy_sdcard_blocks c hal clen (i + 1) (block_begins c hal h (i + 1)))"
      using ev by (simp add: block_loaded_def)
    then show ?thesis
      unfolding IH wsev upt by simp
  qed
qed


text \<open>
  C10. Write \<open>N\<close> for \<^verbatim>\<open>(IMAGE_HEADER_SIZE + codelen) / SDCARD_BLOCK_SIZE\<close> as C computes
  it on \<^verbatim>\<open>uint32_t\<close>. A copy loop that runs to its end does this and nothing else, for
  \<open>i = 0, \<dots>, N - 1\<close> in this order: it reads block \<open>i\<close> of the card into the buffer, and
  it writes word \<open>j\<close> of the buffer as the read left it to byte offset
  \<open>i * SDCARD_BLOCK_SIZE + 4 * j\<close> of the bootloader sector, for every word \<open>j\<close> of a block
  in order; this presumes that a word write leaves the buffer alone. Whether or not the
  loop runs to its end, it reads one block at a time, it writes to the bootloader sector
  only, and every word it writes ends at or below byte \<open>N * SDCARD_BLOCK_SIZE\<close>, which is at
  most the size of the image: the bytes from there to the end of the image are never
  written. When the sum does not wrap, \<open>N\<close> is the quotient of the natural numbers.
\<close>

theorem copy_sdcard_blocks_whole_blocks_only:
  "(copy_frame hal \<and> outcome_of (copy_sdcard_blocks c hal clen 0 h) = Ret () \<longrightarrow>
      events_of (copy_sdcard_blocks c hal clen 0 h) =
        concat (map (\<lambda>i. E_sdcard_read_blocks (of_nat i) 1 (sectrue c)
             # map (\<lambda>j. E_flash_write_word (FLASH_SECTOR_BOOTLOADER c)
                          (of_nat i * SDCARD_BLOCK_SIZE c + of_nat j * 4)
                          (sdcard_buf hal (block_loaded c hal h i) j) (sectrue c))
                 [0..<unat (SDCARD_BLOCK_SIZE c div 4)])
          [0..<unat ((IMAGE_HEADER_SIZE c + clen) div SDCARD_BLOCK_SIZE c)])) \<and>
   list_all (copy_event c) (events_of (copy_sdcard_blocks c hal clen 0 h)) \<and>
   (outcome_of (copy_sdcard_blocks c hal clen 0 h) = Ret () \<longrightarrow>
      blocks_read (events_of (copy_sdcard_blocks c hal clen 0 h)) =
        map of_nat [0..<unat ((IMAGE_HEADER_SIZE c + clen) div SDCARD_BLOCK_SIZE c)] \<and>
      offsets_written (events_of (copy_sdcard_blocks c hal clen 0 h)) =
        concat (map (\<lambda>i. map (\<lambda>j. of_nat i * SDCARD_BLOCK_SIZE c + of_nat j * 4)
                             [0..<unat (SDCARD_BLOCK_SIZE c div 4)])
          [0..<unat ((IMAGE_HEADER_SIZE c + clen) div SDCARD_BLOCK_SIZE c)])) \<and>
   (\<forall>off \<in> set (offsets_written (events_of (copy_sdcard_blocks c hal clen 0 h))).
      unat off + 4 \<le> unat ((IMAGE_HEADER_SIZE c + clen) div SDCARD_BLOCK_SIZE c)
                        * unat (SDCARD_BLOCK_SIZE c)) \<and>
   unat ((IMAGE_HEADER_SIZE c + clen) div SDCARD_BLOCK_SIZE c) * unat (SDCARD_BLOCK_SIZE c)
     \<le> unat (IMAGE_HEADER_SIZE c + clen) \<and>
   (unat (IMAGE_HEADER_SIZE c) + unat clen < 2 ^ 32 \<longrightarrow>
      unat ((IMAGE_HEADER_SIZE c + clen) div SDCARD_BLOCK_SIZE c) =
        (unat (IMAGE_HEADER_SIZE c) + unat clen) div unat (SDCARD_BLOCK_SIZE c))"
proof -
  let ?R = "copy_sdcard_blocks c hal clen 0 h"
  let ?N = "unat ((IMAGE_HEADER_SIZE c + clen) div SDCARD_BLOCK_SIZE c)"
  note loop = copy_sdcard_blocks_offsets[of c hal clen 0 h]
  have copied: "copy_frame hal \<and> outcome_of ?R = Ret () \<longrightarrow>
      events_of ?R =
        concat (map (\<lambda>i. E_sdcard_read_blocks (of_nat i) 1 (sectrue c)
             # map (\<lambda>j. E_flash_write_word (FLASH_SECTOR_BOOTLOADER c)
                          (of_nat i * SDCARD_BLOCK_SIZE c + of_nat j * 4)
                          (sdcard_buf hal (block_loaded c hal h i) j) (sectrue c))
                 [0..<unat (SDCARD_BLOCK_SIZE c div 4)])
          [0..<?N])"
    using copy_sdcard_blocks_copied[of hal c clen 0 h] by simp
  have events: "list_all (copy_event c) (events_of ?R)"
    by (rule onlyD[OF copy_sdcard_blocks_only])
  have bound: "\<forall>off \<in> set (offsets_written (events_of ?R)).
      unat off + 4 \<le> ?N * unat (SDCARD_BLOCK_SIZE c)"
  proof
    fix off assume "off \<in> set (offsets_written (events_of ?R))"
    with loop obtain i j where "i < ?N" and "j < unat (SDCARD_BLOCK_SIZE c div 4)"
      and "off = of_nat i * SDCARD_BLOCK_SIZE c + of_nat j * 4"
      by blast
    with offset_within_blocks(1)[of i "IMAGE_HEADER_SIZE c + clen" "SDCARD_BLOCK_SIZE c" j]
    show "unat off + 4 \<le> ?N * unat (SDCARD_BLOCK_SIZE c)" by simp
  qed
  have le: "?N * unat (SDCARD_BLOCK_SIZE c) \<le> unat (IMAGE_HEADER_SIZE c + clen)"
    by (simp add: unat_div)
  have floor: "unat (IMAGE_HEADER_SIZE c) + unat clen < 2 ^ 32 \<longrightarrow>
      ?N = (unat (IMAGE_HEADER_SIZE c) + unat clen) div unat (SDCARD_BLOCK_SIZE c)"
    by (simp add: unat_div unat_word_ariths)
  from loop have offsets: "outcome_of ?R = Ret () \<longrightarrow>
      blocks_read (events_of ?R) = map of_nat [0..<?N] \<and>
      offsets_written (events_of ?R) =
        concat (map (\<lambda>i. map (\<lambda>j. of_nat i * SDCARD_BLOCK_SIZE c + of_nat j * 4)
                             [0..<unat (SDCARD_BLOCK_SIZE c div 4)])
          [0..<?N])"
    by simp
  show ?thesis
    by (intro conjI copied events offsets bound le floor)
qed

lemma card_board_simps [simp]:
  "flash_write_word (card_board c) = (\<lambda>sec off v h. (sectrue c, h))"
  "sdcard_read_blocks (card_board c) = (\<lambda>b n h. (sectrue c, b))"
  "sdcard_buf (card_board c) = (\<lambda>h j. h * 0x10000 + of_nat j)"
  by (simp_all add: card_board_def)

lemma card_words_ok:
  "outcome_of (copy_sdcard_words c (card_board c) i j h) = Ret ()"
proof (induction c "card_board c" i j arbitrary: h rule: copy_sdcard_words.induct)
  case (1 c i j)
  show ?case
  proof (cases "j < unat (SDCARD_BLOCK_SIZE c div 4)")
    case False
    then show ?thesis by (simp add: copy_sdcard_words_end)
  next
    case True
    with "1.hyps"[OF True] show ?thesis
      by (simp add: copy_sdcard_words_step[OF True] Let_def)
  qed
qed

lemma card_blocks_ok:
  "outcome_of (copy_sdcard_blocks c (card_board c) clen i h) = Ret ()"
proof (induction c "card_board c" clen i arbitrary: h rule: copy_sdcard_blocks.induct)
  case (1 c clen i)
  show ?case
  proof (cases "i < unat ((IMAGE_HEADER_SIZE c + clen) div SDCARD_BLOCK_SIZE c)")
    case False
    then show ?thesis by (simp add: copy_sdcard_blocks_end)
  next
    case True
    with "1.hyps"[OF True] card_words_ok show ?thesis
      by (simp add: copy_sdcard_blocks_step[OF True] Let_def)
  qed
qed

theorem copy_sdcard_blocks_whole_blocks_only_witness:
  "copy_frame (card_board model_t) \<and>
   outcome_of (copy_sdcard_blocks model_t (card_board model_t) 1100 0 0) = Ret () \<and>
   events_of (copy_sdcard_blocks model_t (card_board model_t) 1100 0 0) =
     concat (map (\<lambda>i. E_sdcard_read_blocks (of_nat i) 1 0xAAAAAAAA
          # map (\<lambda>j. E_flash_write_word 5 (of_nat i * 512 + of_nat j * 4)
                       (of_nat i * 0x10000 + of_nat j) 0xAAAAAAAA) [0..<128])
       [0..<4]) \<and>
   E_flash_write_word 5 2044 0x3007F 0xAAAAAAAA
     \<in> set (events_of (copy_sdcard_blocks model_t (card_board model_t) 1100 0 0)) \<and>
   list_all (copy_event model_t)
     (events_of (copy_sdcard_blocks model_t (card_board model_t) 1100 0 0)) \<and>
   blocks_read (events_of (copy_sdcard_blocks model_t (card_board model_t) 1100 0 0))
     = [0, 1, 2, 3] \<and>
   2044 \<in> set (offsets_written
            (events_of (copy_sdcard_blocks model_t (card_board model_t) 1100 0 0))) \<and>
   unat (2044 :: 32 word) + 4 \<le> 4 * 512 \<and>
   (4 :: nat) * 512 \<le> 2124 \<and>
   unat (IMAGE_HEADER_SIZE model_t) + unat (1100 :: 32 word) < 2 ^ 32 \<and>
   unat ((IMAGE_HEADER_SIZE model_t + 1100) div SDCARD_BLOCK_SIZE model_t) = 2124 div 512"
proof -
  let ?H = "card_board model_t"
  let ?R = "copy_sdcard_blocks model_t ?H 1100 0 0"
  let ?F = "\<lambda>i. E_sdcard_read_blocks (of_nat i) 1 0xAAAAAAAA
          # map (\<lambda>j. E_flash_write_word 5 (of_nat i * 512 + of_nat j * 4)
                       (of_nat i * 0x10000 + of_nat j) 0xAAAAAAAA) [0..<128]"
  have N: "unat ((IMAGE_HEADER_SIZE model_t + 1100) div SDCARD_BLOCK_SIZE model_t) = 4"
    by (simp add: model_t_def)
  have W: "unat (SDCARD_BLOCK_SIZE model_t div 4) = 128"
    by (simp add: model_t_def)
  have bs: "SDCARD_BLOCK_SIZE model_t = 512" by (simp add: model_t_def)
  have bl: "FLASH_SECTOR_BOOTLOADER model_t = 5" by (simp add: model_t_def)
  have st: "sectrue model_t = 0xAAAAAAAA" by (simp add: model_t_def)
  have frame: "copy_frame ?H" by (simp add: copy_frame_def)
  have ok: "outcome_of ?R = Ret ()" by (rule card_blocks_ok)
  have loaded: "block_loaded model_t ?H 0 i = of_nat i" for i
    by (simp add: block_loaded_def)
  note t = copy_sdcard_blocks_whole_blocks_only[of ?H model_t 1100 0]
  from t[THEN conjunct1] frame ok
  have ev: "events_of ?R = concat (map ?F [0..<4])"
    unfolding N W unfolding bs bl st by (simp add: loaded)
  note rest = t[THEN conjunct2]
  note events = rest[THEN conjunct1]
  note copied = rest[THEN conjunct2, THEN conjunct1, rule_format, OF ok]
  note ball = rest[THEN conjunct2, THEN conjunct2, THEN conjunct1]
  have "E_flash_write_word 5 2044 0x3007F 0xAAAAAAAA
      \<in> (\<lambda>j. E_flash_write_word 5 (of_nat 3 * 512 + of_nat j * 4)
                (of_nat 3 * 0x10000 + of_nat j) 0xAAAAAAAA) ` {0..<128}"
    by (rule image_eqI[of _ _ 127]) simp_all
  then have "E_flash_write_word 5 2044 0x3007F 0xAAAAAAAA \<in> set (?F 3)" by simp
  then have "E_flash_write_word 5 2044 0x3007F 0xAAAAAAAA \<in> (\<Union>i\<in>{0..<4}. set (?F i))"
    by (rule UN_I[of 3, rotated]) simp
  moreover have "set (events_of ?R) = (\<Union>i\<in>{0..<4}. set (?F i))"
    unfolding ev by simp
  ultimately have wr: "E_flash_write_word 5 2044 0x3007F 0xAAAAAAAA \<in> set (events_of ?R)"
    by (rule ssubst[of _ _ "\<lambda>S. E_flash_write_word 5 2044 0x3007F 0xAAAAAAAA \<in> S", rotated])
  have rd: "blocks_read (events_of ?R) = [0, 1, 2, 3]"
    using copied[THEN conjunct1] unfolding N by (simp add: upt_rec)
  have offs: "offsets_written (events_of ?R) =
      concat (map (\<lambda>i. map (\<lambda>j. of_nat i * SDCARD_BLOCK_SIZE model_t + of_nat j * 4) [0..<128])
        [0..<4])"
    using copied[THEN conjunct2] unfolding N W .
  have "(2044 :: 32 word) \<in> (\<lambda>j. of_nat 3 * SDCARD_BLOCK_SIZE model_t + of_nat j * 4) ` {0..<128}"
    by (rule image_eqI[of _ _ 127]) (simp_all add: bs)
  then have "(2044 :: 32 word) \<in>
      (\<Union>i\<in>{0..<4}. (\<lambda>j. of_nat i * SDCARD_BLOCK_SIZE model_t + of_nat j * 4) ` {0..<128})"
    by (rule UN_I[of 3, rotated]) simp
  moreover have "set (offsets_written (events_of ?R)) =
      (\<Union>i\<in>{0..<4}. (\<lambda>j. of_nat i * SDCARD_BLOCK_SIZE model_t + of_nat j * 4) ` {0..<128})"
    unfolding offs by simp
  ultimately have mem: "2044 \<in> set (offsets_written (events_of ?R))"
    by (rule ssubst[of _ _ "\<lambda>S. 2044 \<in> S", rotated])
  from bspec[OF ball mem] have fits: "unat (2044 :: 32 word) + 4 \<le> 4 * 512"
    unfolding N unfolding bs by simp
  have small: "unat (IMAGE_HEADER_SIZE model_t) + unat (1100 :: 32 word) < 2 ^ 32"
    by (simp add: model_t_def)
  have q: "unat ((IMAGE_HEADER_SIZE model_t + 1100) div SDCARD_BLOCK_SIZE model_t) = 2124 div 512"
    unfolding N by simp
  have four: "(4 :: nat) * 512 \<le> 2124" by simp
  show ?thesis
    by (intro conjI frame ok ev wr events rd mem fits four small q)
qed

end
